theory Spec2Isabelle
  imports
    Main
    "HOL-Library.Char_ord"
    "HOL-Library.List_Lexorder"
    "HOL-Library.Multiset"
    "HOL-Library.Sublist"
begin

section \<open>Strings, characters and integer conversion\<close>

text \<open>
  A Python \<open>str\<close> is modelled as a \<open>string\<close>: a list of characters, each standing
  for the code point of its number, so the model covers the code points 0 to 255. Lists of
  characters are compared lexicographically by code point (\<open>List_Lexorder\<close> over
  \<open>Char_ord\<close>), which is how Python compares two \<open>str\<close> values. The character
  classes below are the ones of Python 3 on that range. A \<open>bytes\<close> value is a list
  of characters as well.
\<close>

type_synonym bytes = string

definition code_point :: "char \<Rightarrow> nat" where
  "code_point c = of_char c"

text \<open>\<open>\d\<close> of module \<open>re\<close>: the decimal digits.\<close>

definition is_digit :: "char \<Rightarrow> bool" where
  "is_digit c = (48 \<le> code_point c \<and> code_point c \<le> 57)"

definition digit_val :: "char \<Rightarrow> nat" where
  "digit_val c = code_point c - 48"

text \<open>\<open>\w\<close> of module \<open>re\<close>: alphanumeric characters and the underscore.\<close>

definition is_word :: "char \<Rightarrow> bool" where
  "is_word c =
     (let n = code_point c in
      (48 \<le> n \<and> n \<le> 57) \<or> (65 \<le> n \<and> n \<le> 90) \<or> n = 95 \<or> (97 \<le> n \<and> n \<le> 122) \<or>
      n = 170 \<or> n = 178 \<or> n = 179 \<or> n = 181 \<or> n = 185 \<or> n = 186 \<or>
      (188 \<le> n \<and> n \<le> 190) \<or> (192 \<le> n \<and> n \<le> 214) \<or>
      (216 \<le> n \<and> n \<le> 246) \<or> 248 \<le> n)"

text \<open>The characters removed by \<open>str.strip()\<close>.\<close>

definition is_space :: "char \<Rightarrow> bool" where
  "is_space c =
     (let n = code_point c in
      (9 \<le> n \<and> n \<le> 13) \<or> (28 \<le> n \<and> n \<le> 32) \<or> n = 133 \<or> n = 160)"

text \<open>The characters that \<open>int()\<close> skips around a literal.\<close>

definition is_int_space :: "char \<Rightarrow> bool" where
  "is_int_space c =
     (let n = code_point c in (9 \<le> n \<and> n \<le> 13) \<or> n = 32 \<or> n = 133 \<or> n = 160)"

definition strip_with :: "(char \<Rightarrow> bool) \<Rightarrow> string \<Rightarrow> string" where
  "strip_with p s = rev (dropWhile p (rev (dropWhile p s)))"

definition strip :: "string \<Rightarrow> string" where
  "strip s = strip_with is_space s"

definition rstrip_slash :: "string \<Rightarrow> string" where
  "rstrip_slash s = rev (dropWhile (\<lambda>c. c = CHR ''/'') (rev s))"

text \<open>
  The digits of an \<open>int()\<close> literal: at least one digit, single underscores only between
  two digits. The flag records whether the previous character was a digit.
\<close>

fun int_digits :: "bool \<Rightarrow> nat \<Rightarrow> string \<Rightarrow> nat option" where
  "int_digits after_digit acc [] = (if after_digit then Some acc else None)"
| "int_digits after_digit acc (c # cs) =
     (if is_digit c then int_digits True (10 * acc + digit_val c) cs
      else if c = CHR ''_'' \<and> after_digit then int_digits False acc cs
      else None)"

text \<open>
  \<open>int(s)\<close> for a string in base 10; \<open>None\<close> is the \<open>ValueError\<close>. The result is
  Python's unbounded integer: the interpreter's optional cap on the number of digits of a
  literal is not part of the model.
\<close>

definition py_int :: "string \<Rightarrow> int option" where
  "py_int s =
     (case strip_with is_int_space s of
        [] \<Rightarrow> None
      | c # cs \<Rightarrow>
          if c = CHR ''+'' then map_option int (int_digits False 0 cs)
          else if c = CHR ''-'' then map_option (\<lambda>n. - int n) (int_digits False 0 cs)
          else map_option int (int_digits False 0 (c # cs)))"

section \<open>Identifier extraction\<close>

text \<open>
  \<open>TWEET_ID_RE = re.compile(r"/status/(\d+)\b")\<close>. At one position the pattern matches
  when the text \<open>/status/\<close> is followed by a non-empty run of digits that ends at the end
  of the string or before a non-word character; the run is the longest one, since a
  shorter run would end between two digits, where \<open>\b\<close> fails. The group is that run.
\<close>

definition match_status :: "string \<Rightarrow> string option" where
  "match_status s =
     (if prefix ''/status/'' s then
        (let r = drop 8 s; ds = takeWhile is_digit r in
         if ds = [] then None
         else (case dropWhile is_digit r of
                 [] \<Rightarrow> Some ds
               | c # _ \<Rightarrow> if is_word c then None else Some ds))
      else None)"

text \<open>\<open>TWEET_ID_RE.search(link)\<close>: the leftmost position with a match.\<close>

fun extract_tweet_id :: "string \<Rightarrow> string option" where
  "extract_tweet_id [] = None"
| "extract_tweet_id (c # cs) =
     (case match_status (c # cs) of
        Some d \<Rightarrow> Some d
      | None \<Rightarrow> extract_tweet_id cs)"

section \<open>Feed items\<close>

text \<open>
  The dictionaries built by \<open>parse_rss_items\<close>: always the same four keys, each a
  stripped string.
\<close>

record item =
  title :: string
  link :: string
  pubDate :: string
  description :: string

text \<open>
  The exceptions that leave the functions modelled here: a \<open>ValueError\<close> (raised by
  \<open>int()\<close>, by the constructor \<open>Request\<close> or by the XML parser), and an exception
  of any other class for which the code has no handler (raised by the transport, while the
  body of an \<open>HTTPError\<close> is read, or by the XML parser).
\<close>

datatype exn = ValueError | OtherError

section \<open>The watermark filter\<close>

text \<open>
  Lines 318 to 324 of \<open>run_once\<close>: the loop that collects \<open>new_items\<close>. \<open>last_id\<close> is
  \<open>None\<close> or a string; \<open>int(tid)\<close> and \<open>int(last_id)\<close> raise \<open>ValueError\<close> on a
  string that is no integer literal, and the exception leaves the loop.
\<close>

fun select_new_items :: "string option \<Rightarrow> item list \<Rightarrow> exn + item list" where
  "select_new_items last_id [] = Inr []"
| "select_new_items last_id (it # its) =
     (case extract_tweet_id (link it) of
        None \<Rightarrow> select_new_items last_id its
      | Some tid \<Rightarrow>
          (case last_id of
             None \<Rightarrow> map_sum id (Cons it) (select_new_items last_id its)
           | Some l \<Rightarrow>
               (case py_int tid of
                  None \<Rightarrow> Inl ValueError
                | Some a \<Rightarrow>
                    (case py_int l of
                       None \<Rightarrow> Inl ValueError
                     | Some b \<Rightarrow>
                         if a > b then map_sum id (Cons it) (select_new_items last_id its)
                         else select_new_items last_id its))))"

section \<open>HTTP helpers\<close>

text \<open>
  Each of the three helpers \<open>http_get\<close>, \<open>http_post_json\<close> and \<open>http_post_form\<close>
  first builds the request with the constructor \<open>Request\<close> of the library and then,
  inside a \<open>try\<close> block with a handler for \<open>HTTPError\<close> and one for \<open>URLError\<close>,
  calls \<open>urlopen\<close> and reads the status and the body.

  The constructor stands before the \<open>try\<close> block. It raises \<open>ValueError\<close> for a URL
  that it cannot take apart, one without a scheme for instance, and the helper then raises
  before any request is made. The constructor is the parameter \<open>Request\<close>, which says
  of a URL whether it is accepted.

  The outside world has some state of type \<open>'w\<close>; \<open>urlopen\<close> is a parameter that
  answers a request in a world and gives the next world. What the \<open>try\<close> block can meet
  is an \<open>outcome\<close>: a status and a body that were read; an \<open>HTTPError\<close> with its
  code and with what \<open>e.read()\<close> gives in the handler, which is the body (empty when the
  error has no \<open>read\<close>) or \<open>None\<close> when the reading raises; a \<open>URLError\<close>; or an
  exception of any other class (\<open>Raised\<close>), for which the helpers have no handler. An
  exception of \<open>e.read()\<close> is raised inside the handler and so leaves the helper too. The
  library turns the errors of connecting and of sending the request into \<open>URLError\<close>; a
  timeout or a dropped connection while the response is awaited or read reaches the helper
  as it is, and so is of the last kind.
\<close>

record wecom_payload =
  msgtype :: string
  content :: string

datatype request =
    GET string
  | POST_JSON string wecom_payload
  | POST_FORM string "(string \<times> string) list"

datatype outcome =
    Returned int bytes
  | HTTPError int "bytes option"
  | URLError
  | Raised

type_synonym 'w transport = "request \<Rightarrow> 'w \<Rightarrow> outcome \<times> 'w"

text \<open>The \<open>try\<close> block and its handlers, the same in the three helpers.\<close>

fun handled :: "outcome \<Rightarrow> exn + int \<times> bytes" where
  "handled (Returned code body) = Inr (code, body)"
| "handled (HTTPError code (Some body)) = Inr (code, body)"
| "handled (HTTPError code None) = Inl OtherError"
| "handled URLError = Inr (0, [])"
| "handled Raised = Inl OtherError"

definition http_get ::
  "(string \<Rightarrow> bool) \<Rightarrow> 'w transport \<Rightarrow> string \<Rightarrow> 'w \<Rightarrow> (exn + int \<times> bytes) \<times> 'w" where
  "http_get Request urlopen url w =
     (if Request url then (case urlopen (GET url) w of (oc, w') \<Rightarrow> (handled oc, w'))
      else (Inl ValueError, w))"

definition http_post_json ::
  "(string \<Rightarrow> bool) \<Rightarrow> 'w transport \<Rightarrow> string \<Rightarrow> wecom_payload \<Rightarrow> 'w
   \<Rightarrow> (exn + int \<times> bytes) \<times> 'w" where
  "http_post_json Request urlopen url payload w =
     (if Request url
      then (case urlopen (POST_JSON url payload) w of (oc, w') \<Rightarrow> (handled oc, w'))
      else (Inl ValueError, w))"

definition http_post_form ::
  "(string \<Rightarrow> bool) \<Rightarrow> 'w transport \<Rightarrow> string \<Rightarrow> (string \<times> string) list \<Rightarrow> 'w
   \<Rightarrow> (exn + int \<times> bytes) \<times> 'w" where
  "http_post_form Request urlopen url form w =
     (if Request url
      then (case urlopen (POST_FORM url form) w of (oc, w') \<Rightarrow> (handled oc, w'))
      else (Inl ValueError, w))"

section \<open>Parsing and fetching a feed\<close>

text \<open>
  An element has a tag, a text (possibly \<open>None\<close>) and children. \<open>ET.fromstring\<close> is a
  parameter. It gives the root element, or raises \<open>ParseError\<close>, the exception that
  \<open>parse_rss_items\<close> catches, or raises an exception of another class, which
  \<open>parse_rss_items\<close> does not catch: the parser of the library raises \<open>ValueError\<close>
  for a document that declares a multi-byte encoding and \<open>LookupError\<close> for one that
  declares an encoding unknown to it.
\<close>

datatype element = Element (elem_tag: string) (elem_text: "string option") (elem_children: "element list")

datatype parsed = Root element | ParseError | ParserRaised exn

definition findtext :: "element \<Rightarrow> string \<Rightarrow> string option" where
  "findtext e name =
     (case find (\<lambda>c. elem_tag c = name) (elem_children e) of
        None \<Rightarrow> None
      | Some c \<Rightarrow> Some (case elem_text c of None \<Rightarrow> [] | Some t \<Rightarrow> t))"

definition or_empty :: "string option \<Rightarrow> string" where
  "or_empty x = (case x of None \<Rightarrow> [] | Some s \<Rightarrow> s)"

definition parse_rss_items :: "(bytes \<Rightarrow> parsed) \<Rightarrow> bytes \<Rightarrow> exn + item list" where
  "parse_rss_items fromstring xml_bytes =
     (case fromstring xml_bytes of
        ParseError \<Rightarrow> Inr []
      | ParserRaised e \<Rightarrow> Inl e
      | Root root \<Rightarrow>
          (let channel =
                 (case find (\<lambda>c. elem_tag c = ''channel'') (elem_children root) of
                    Some c \<Rightarrow> Some c
                  | None \<Rightarrow> find (\<lambda>c. suffix ''channel'' (elem_tag c)) (elem_children root))
           in case channel of
                None \<Rightarrow> Inr []
              | Some ch \<Rightarrow>
                  Inr (map (\<lambda>i. \<lparr>title = strip (or_empty (findtext i ''title'')),
                                 link = strip (or_empty (findtext i ''link'')),
                                 pubDate = strip (or_empty (findtext i ''pubDate'')),
                                 description = strip (or_empty (findtext i ''description''))\<rparr>)
                         (filter (\<lambda>c. elem_tag c = ''item'') (elem_children ch)))))"

definition rss_url :: "string \<Rightarrow> string \<Rightarrow> string" where
  "rss_url base username = rstrip_slash base @ ''/'' @ username @ ''/rss''"

text \<open>
  \<open>items.sort(key=lambda x: x.get("pubDate", ""))\<close> is a stable sort on the
  \<open>pubDate\<close> strings, as \<open>sort_key\<close> is.
\<close>

fun fetch_latest_from_nitter ::
  "(string \<Rightarrow> bool) \<Rightarrow> 'w transport \<Rightarrow> (bytes \<Rightarrow> parsed) \<Rightarrow> string list \<Rightarrow> string \<Rightarrow> 'w
   \<Rightarrow> (exn + item list) \<times> 'w" where
  "fetch_latest_from_nitter Request urlopen fromstring [] username w = (Inr [], w)"
| "fetch_latest_from_nitter Request urlopen fromstring (base # instances) username w =
     (case http_get Request urlopen (rss_url base username) w of
        (Inl e, w') \<Rightarrow> (Inl e, w')
      | (Inr (code, body), w') \<Rightarrow>
          if code = 200 \<and> body \<noteq> [] then
            (case parse_rss_items fromstring body of
               Inl e \<Rightarrow> (Inl e, w')
             | Inr items \<Rightarrow> (Inr (sort_key pubDate items), w'))
          else fetch_latest_from_nitter Request urlopen fromstring instances username w')"

section \<open>The two push channels\<close>

text \<open>
  A parsed JSON document. A float is \<open>JFloat m e\<close> for the finite value \<open>m * 2 ^ e\<close>,
  or \<open>JNonFinite\<close> for \<open>NaN\<close> and the infinities, which \<open>json.loads\<close> accepts. The
  members of an object have distinct keys. \<open>json.loads(body.decode("utf-8"))\<close> is a
  parameter \<open>loads\<close>; \<open>None\<close> stands for any exception of the decoding or the parsing,
  all of which the \<open>except Exception\<close> of the push functions catches.
\<close>

datatype json =
    JNull
  | JBool bool
  | JInt int
  | JFloat int int
  | JNonFinite
  | JStr string
  | JArr "json list"
  | JObj "(string \<times> json) list"

text \<open>Python's \<open>v == 0\<close>.\<close>

fun eq_zero :: "json \<Rightarrow> bool" where
  "eq_zero (JInt i) = (i = 0)"
| "eq_zero (JBool b) = (\<not> b)"
| "eq_zero (JFloat m e) = (m = 0)"
| "eq_zero _ = False"

text \<open>
  \<open>resp.get(key, default) == 0\<close>, where \<open>resp.get\<close> raises \<open>AttributeError\<close> unless
  \<open>resp\<close> is a dictionary; the exception is caught and the result is \<open>False\<close>.
\<close>

fun member_is_zero :: "json \<Rightarrow> string \<Rightarrow> json \<Rightarrow> bool" where
  "member_is_zero (JObj kvs) key dflt =
     eq_zero (case map_of kvs key of None \<Rightarrow> dflt | Some v \<Rightarrow> v)"
| "member_is_zero _ key dflt = False"

definition push_wecom ::
  "(string \<Rightarrow> bool) \<Rightarrow> 'w transport \<Rightarrow> (bytes \<Rightarrow> json option) \<Rightarrow> string \<Rightarrow> string \<Rightarrow> 'w
   \<Rightarrow> (exn + bool) \<times> 'w" where
  "push_wecom Request urlopen loads webhook text w =
     (let payload = \<lparr>msgtype = ''text'', content = take 4096 text\<rparr> in
      case http_post_json Request urlopen webhook payload w of
        (Inl e, w') \<Rightarrow> (Inl e, w')
      | (Inr (code, body), w') \<Rightarrow>
          if code \<noteq> 200 then (Inr False, w')
          else (case loads body of
                  None \<Rightarrow> (Inr False, w')
                | Some resp \<Rightarrow> (Inr (member_is_zero resp ''errcode'' (JInt (- 1))), w')))"

definition push_serverchan ::
  "(string \<Rightarrow> bool) \<Rightarrow> 'w transport \<Rightarrow> (bytes \<Rightarrow> json option) \<Rightarrow> string \<Rightarrow> string \<Rightarrow> string
   \<Rightarrow> 'w \<Rightarrow> (exn + bool) \<times> 'w" where
  "push_serverchan Request urlopen loads sendkey ttl desp w =
     (let url = ''https://sctapi.ftqq.com/'' @ sendkey @ ''.send'' in
      case http_post_form Request urlopen url [(''title'', ttl), (''desp'', desp)] w of
        (Inl e, w') \<Rightarrow> (Inl e, w')
      | (Inr (code, body), w') \<Rightarrow>
          if code \<noteq> 200 then (Inr False, w')
          else (case loads body of
                  None \<Rightarrow> (Inr False, w')
                | Some resp \<Rightarrow> (Inr (member_is_zero resp ''code'' JNull), w')))"

section \<open>Rendering a message\<close>

text \<open>\<open>str.replace(old, new)\<close> for a non-empty \<open>old\<close>, as in its three uses below.\<close>

function str_replace :: "string \<Rightarrow> string \<Rightarrow> string \<Rightarrow> string" where
  "str_replace old new [] = []"
| "str_replace old new (c # cs) =
     (if old \<noteq> [] \<and> prefix old (c # cs)
      then new @ str_replace old new (drop (length old) (c # cs))
      else c # str_replace old new cs)"
  by pat_completeness auto
termination
  by (relation "measure (\<lambda>(old, new, s). length s)") (auto simp: neq_Nil_conv)

definition build_x_link :: "string \<Rightarrow> string \<Rightarrow> string" where
  "build_x_link username tweet_id = ''https://x.com/'' @ username @ ''/status/'' @ tweet_id"

definition newline :: string where
  "newline = [CHR 0x0A]"

text \<open>
  \<open>simple_translate\<close> is a parameter \<open>translate\<close>, a function from strings to strings.
  The label that the source puts before the original title consists of characters beyond
  code point 255; it is the parameter \<open>label_original\<close>.
\<close>

definition format_message ::
  "(string \<Rightarrow> string) \<Rightarrow> string \<Rightarrow> string \<Rightarrow> item \<Rightarrow> string \<times> string" where
  "format_message translate label_original username it =
     (let lnk = link it;
          tid = or_empty (extract_tweet_id lnk);
          x_link = (if tid \<noteq> [] then build_x_link username tid else lnk);
          ttl = str_replace ''&gt;'' ''>'' (str_replace ''&lt;'' ''<''
                  (str_replace ''&amp;'' ''&'' (title it)));
          translated_title = translate ttl;
          text =
            (if translated_title \<noteq> ttl \<and> strip translated_title \<noteq> []
             then ''@'' @ username @ '':'' @ newline @ translated_title @ newline @ newline
                    @ label_original @ ttl @ newline @ x_link
             else ''@'' @ username @ '': '' @ ttl @ newline @ x_link)
      in (text, x_link))"

section \<open>The checkpoint state\<close>

text \<open>
  \<open>state["users"]\<close> maps an account to a dictionary. The program writes
  \<open>{"last_id": tid}\<close> there; a loaded file may hold other members, so a dictionary is a
  list of members with distinct keys whose values are JSON scalars (null, a boolean, an
  integer or a string). \<open>py_str\<close> is \<open>str()\<close> on the Python value of such a scalar.
\<close>

datatype scalar = SNull | SBool bool | SInt int | SStr string

type_synonym user_record = "(string \<times> scalar) list"

type_synonym users_state = "string \<rightharpoonup> user_record"

record state =
  st_users :: "users_state option"
  updated_at :: "string option"

definition digit_char :: "nat \<Rightarrow> char" where
  "digit_char d = char_of (48 + d)"

fun show_nat :: "nat \<Rightarrow> string" where
  "show_nat n = (if n < 10 then [digit_char n] else show_nat (n div 10) @ [digit_char (n mod 10)])"

declare show_nat.simps [simp del]

fun py_str :: "scalar \<Rightarrow> string" where
  "py_str SNull = ''None''"
| "py_str (SBool b) = (if b then ''True'' else ''False'')"
| "py_str (SInt i) = (if i < 0 then CHR ''-'' # show_nat (nat (- i)) else show_nat (nat i))"
| "py_str (SStr s) = s"

text \<open>
  Line 316:
  \<open>last_id = str(users_state.get(username, {}).get("last_id")) if users_state.get(username) else None\<close>.
  An absent account and an empty dictionary are both false.
\<close>

definition last_id_of :: "users_state \<Rightarrow> string \<Rightarrow> string option" where
  "last_id_of users_state username =
     (case users_state username of
        None \<Rightarrow> None
      | Some r \<Rightarrow>
          if r = [] then None
          else Some (py_str (case map_of r ''last_id'' of None \<Rightarrow> SNull | Some v \<Rightarrow> v)))"

text \<open>The truth value of an \<open>Optional[str]\<close>.\<close>

definition truthy :: "string option \<Rightarrow> bool" where
  "truthy x = (case x of None \<Rightarrow> False | Some s \<Rightarrow> s \<noteq> [])"

text \<open>\<open>a or b\<close> on two values of type \<open>Optional[str]\<close>.\<close>

definition py_or :: "string option \<Rightarrow> string option \<Rightarrow> string option" where
  "py_or a b = (if truthy a then a else b)"

section \<open>One pass over the accounts\<close>

text \<open>
  The collaborators of a pass that are not part of the program: the constructor of a
  request, the transport, the XML and JSON parsers, the translation, and the two labels of
  the source that lie beyond code point 255 (the one before the original title and the one
  after the account in the title of the form channel).
\<close>

record 'w ext =
  Request :: "string \<Rightarrow> bool"
  urlopen :: "'w transport"
  fromstring :: "bytes \<Rightarrow> parsed"
  loads :: "bytes \<Rightarrow> json option"
  simple_translate :: "string \<Rightarrow> string"
  label_original :: string
  label_latest :: string

text \<open>
  The push settings that \<open>run_once\<close> computes before its loop: the variables
  \<open>method\<close>, \<open>wecom_webhook\<close> and \<open>serverchan_key\<close>.
\<close>

record channel =
  method_name :: string
  wecom_webhook :: "string option"
  serverchan_key :: "string option"

text \<open>The lines that \<open>run_once\<close> prints.\<close>

datatype line =
    Warn_wecom
  | Warn_serverchan
  | Info_no_items string
  | Info_no_new string
  | Warn_no_method
  | Sent string string
  | Fail string string

text \<open>Lines 335 to 342: the choice of the channel for one message.\<close>

definition push_message ::
  "'w ext \<Rightarrow> channel \<Rightarrow> string \<Rightarrow> string \<Rightarrow> string \<Rightarrow> 'w \<Rightarrow> (exn + bool \<times> line list) \<times> 'w" where
  "push_message E ch username msg x_link w =
     (if method_name ch = ''wecom'' \<and> truthy (wecom_webhook ch) then
        (case push_wecom (Request E) (urlopen E) (loads E) (the (wecom_webhook ch)) msg w of
           (Inl e, w') \<Rightarrow> (Inl e, w')
         | (Inr ok, w') \<Rightarrow> (Inr (ok, []), w'))
      else if method_name ch = ''serverchan'' \<and> truthy (serverchan_key ch) then
        (case push_serverchan (Request E) (urlopen E) (loads E) (the (serverchan_key ch))
                (''@'' @ username @ label_latest E) (msg @ newline @ newline @ x_link) w of
           (Inl e, w') \<Rightarrow> (Inl e, w')
         | (Inr ok, w') \<Rightarrow> (Inr (ok, []), w'))
      else (Inr (False, [Warn_no_method]), w))"

text \<open>
  Lines 333 to 349: the delivery loop, with the running \<open>latest_seen_id\<close>. The result
  holds the final \<open>latest_seen_id\<close> and the lines printed; an exception ends the loop.
\<close>

fun deliver_items ::
  "'w ext \<Rightarrow> channel \<Rightarrow> string \<Rightarrow> item list \<Rightarrow> string option \<Rightarrow> 'w
   \<Rightarrow> (exn + string option \<times> line list) \<times> 'w" where
  "deliver_items E ch username [] latest_seen_id w = (Inr (latest_seen_id, []), w)"
| "deliver_items E ch username (it # its) latest_seen_id w =
     (case format_message (simple_translate E) (label_original E) username it of
        (msg, x_link) \<Rightarrow>
          (case push_message E ch username msg x_link w of
             (Inl e, w1) \<Rightarrow> (Inl e, w1)
           | (Inr (ok, warn), w1) \<Rightarrow>
               (let tid = extract_tweet_id (link it);
                    sent = (ok \<and> truthy tid);
                    printed = (if sent then Sent username (or_empty tid)
                               else Fail username (if truthy tid then or_empty tid else ''unknown''))
                in case deliver_items E ch username its (if sent then tid else latest_seen_id) w1 of
                     (Inl e, w2) \<Rightarrow> (Inl e, w2)
                   | (Inr (final, out), w2) \<Rightarrow> (Inr (final, warn @ printed # out), w2))))"

text \<open>Lines 311 to 352: the body of the loop over the accounts.\<close>

definition process_user ::
  "'w ext \<Rightarrow> string list \<Rightarrow> channel \<Rightarrow> string \<Rightarrow> users_state \<Rightarrow> 'w
   \<Rightarrow> (exn + users_state \<times> line list) \<times> 'w" where
  "process_user E instances ch username users_state w =
     (case fetch_latest_from_nitter (Request E) (urlopen E) (fromstring E) instances username w of
        (Inl e, w1) \<Rightarrow> (Inl e, w1)
      | (Inr items, w1) \<Rightarrow>
          if items = [] then (Inr (users_state, [Info_no_items username]), w1)
          else
            (let last_id = last_id_of users_state username in
             case select_new_items last_id items of
               Inl e \<Rightarrow> (Inl e, w1)
             | Inr new_items \<Rightarrow>
                 if new_items = [] then (Inr (users_state, [Info_no_new username]), w1)
                 else
                   (case deliver_items E ch username (sort_key pubDate new_items) last_id w1 of
                      (Inl e, w2) \<Rightarrow> (Inl e, w2)
                    | (Inr (latest_seen_id, out), w2) \<Rightarrow>
                        (Inr (if truthy latest_seen_id
                              then users_state(username \<mapsto>
                                     [(''last_id'', SStr (or_empty latest_seen_id))])
                              else users_state, out), w2))))"

fun process_users ::
  "'w ext \<Rightarrow> string list \<Rightarrow> channel \<Rightarrow> string list \<Rightarrow> users_state \<Rightarrow> 'w
   \<Rightarrow> (exn + users_state \<times> line list) \<times> 'w" where
  "process_users E instances ch [] users_state w = (Inr (users_state, []), w)"
| "process_users E instances ch (username # rest) users_state w =
     (case process_user E instances ch username users_state w of
        (Inl e, w1) \<Rightarrow> (Inl e, w1)
      | (Inr (users_state1, out1), w1) \<Rightarrow>
          (case process_users E instances ch rest users_state1 w1 of
             (Inl e, w2) \<Rightarrow> (Inl e, w2)
           | (Inr (users_state2, out2), w2) \<Rightarrow> (Inr (users_state2, out1 @ out2), w2)))"

text \<open>
  The configuration: the members that \<open>run_once\<close> reads, each possibly absent, and the
  two environment variables it falls back on.
\<close>

record config =
  users :: "string list option"
  nitter_instances :: "string list option"
  push_method :: "string option"
  push_wecom_webhook :: "string option"
  push_serverchan_sendkey :: "string option"

record environ =
  WECOM_WEBHOOK :: "string option"
  SERVERCHAN_SENDKEY :: "string option"

definition default_instances :: "string list" where
  "default_instances =
     [''https://nitter.net'', ''https://nitter.poast.org'',
      ''https://nitter.privacydev.net'', ''https://n.ramle.be'']"

definition users_of :: "config \<Rightarrow> string list" where
  "users_of cfg = (case users cfg of None \<Rightarrow> [] | Some us \<Rightarrow> us)"

definition instances_of :: "config \<Rightarrow> string list" where
  "instances_of cfg = (case nitter_instances cfg of None \<Rightarrow> default_instances | Some is \<Rightarrow> is)"

definition channel_of :: "config \<Rightarrow> environ \<Rightarrow> channel" where
  "channel_of cfg env =
     \<lparr>method_name = (case push_method cfg of None \<Rightarrow> ''wecom'' | Some m \<Rightarrow> m),
      wecom_webhook = py_or (push_wecom_webhook cfg) (WECOM_WEBHOOK env),
      serverchan_key = py_or (push_serverchan_sendkey cfg) (SERVERCHAN_SENDKEY env)\<rparr>"

text \<open>
  \<open>run_once\<close>. The clock reading \<open>datetime.utcnow().isoformat()\<close> is the parameter
  \<open>utcnow\<close>. The result is the new state with the lines printed, or the exception that
  left the function.
\<close>

definition run_once ::
  "'w ext \<Rightarrow> environ \<Rightarrow> string \<Rightarrow> config \<Rightarrow> state \<Rightarrow> 'w \<Rightarrow> (exn + state \<times> line list) \<times> 'w" where
  "run_once E env utcnow cfg st w =
     (let usernames = users_of cfg;
          instances = instances_of cfg;
          ch = channel_of cfg env;
          warn1 = (if method_name ch = ''wecom'' \<and> \<not> truthy (wecom_webhook ch) then [Warn_wecom] else []);
          warn2 = (if method_name ch = ''serverchan'' \<and> \<not> truthy (serverchan_key ch)
                   then [Warn_serverchan] else []);
          users_state = (case st_users st of None \<Rightarrow> Map.empty | Some m \<Rightarrow> m)
      in case process_users E instances ch usernames users_state w of
           (Inl e, w') \<Rightarrow> (Inl e, w')
         | (Inr (users_state', out), w') \<Rightarrow>
             (Inr (\<lparr>st_users = Some users_state', updated_at = Some (utcnow @ ''Z'')\<rparr>,
                   warn1 @ warn2 @ out), w'))"

text \<open>
  The loop of \<open>main\<close> in daemon mode, for as many passes as there are clock readings:
  each pass starts from the state the previous one returned and saved. The result lists,
  pass by pass, the state saved and the lines printed; an exception in \<open>run_once\<close> ends
  the process before anything is saved.
\<close>

fun daemon ::
  "'w ext \<Rightarrow> environ \<Rightarrow> config \<Rightarrow> string list \<Rightarrow> state \<Rightarrow> 'w \<Rightarrow> (state \<times> line list) list \<times> 'w" where
  "daemon E env cfg [] st w = ([], w)"
| "daemon E env cfg (utcnow # clock) st w =
     (case run_once E env utcnow cfg st w of
        (Inl e, w1) \<Rightarrow> ([], w1)
      | (Inr (new_state, out), w1) \<Rightarrow>
          (case daemon E env cfg clock new_state w1 of
             (saved, w2) \<Rightarrow> ((new_state, out) # saved, w2)))"

section \<open>Saving the checkpoint\<close>

text \<open>
  A file system maps a path to the content of the file there. \<open>save_json_atomic\<close> opens
  the temporary file for writing, which creates or empties it, writes the chunks that
  \<open>json.dump\<close> produces (the parameter \<open>chunks\<close>) one after the other, and calls
  \<open>os.replace\<close>, which moves the temporary file over the target in one step.
\<close>

type_synonym fs = "string \<rightharpoonup> string"

definition open_w :: "string \<Rightarrow> fs \<Rightarrow> fs" where
  "open_w p f = f(p \<mapsto> [])"

definition write_chunk :: "string \<Rightarrow> string \<Rightarrow> fs \<Rightarrow> fs" where
  "write_chunk p chunk f = (case f p of None \<Rightarrow> f | Some c \<Rightarrow> f(p \<mapsto> c @ chunk))"

definition os_replace :: "string \<Rightarrow> string \<Rightarrow> fs \<Rightarrow> fs" where
  "os_replace src dst f = (case f src of None \<Rightarrow> f | Some c \<Rightarrow> (f(src := None))(dst \<mapsto> c))"

definition save_json_atomic_steps :: "('a \<Rightarrow> string list) \<Rightarrow> string \<Rightarrow> 'a \<Rightarrow> (fs \<Rightarrow> fs) list" where
  "save_json_atomic_steps chunks path data =
     (let tmp = path @ ''.tmp'' in
      open_w tmp # map (write_chunk tmp) (chunks data) @ [os_replace tmp path])"

text \<open>The file system after the first \<open>k\<close> steps: a crash or an exception stops there.\<close>

definition run_steps :: "nat \<Rightarrow> (fs \<Rightarrow> fs) list \<Rightarrow> fs \<Rightarrow> fs" where
  "run_steps k steps f = fold (\<lambda>step. step) (take k steps) f"

definition save_json_atomic :: "('a \<Rightarrow> string list) \<Rightarrow> string \<Rightarrow> 'a \<Rightarrow> fs \<Rightarrow> fs" where
  "save_json_atomic chunks path data f =
     (let steps = save_json_atomic_steps chunks path data in run_steps (length steps) steps f)"



section \<open>Identifiers as integers\<close>

text \<open>The value of a string of decimal digits, and the identifier of an item as an integer.\<close>

definition decimal :: "string \<Rightarrow> nat" where
  "decimal s = foldl (\<lambda>a c. 10 * a + digit_val c) 0 s"

definition tweet_number :: "item \<Rightarrow> int option" where
  "tweet_number it = Option.bind (extract_tweet_id (link it)) py_int"

section \<open>Reading the printed lines\<close>

text \<open>The identifiers of the lines that report a confirmed delivery, in order.\<close>

fun sent_ids :: "line list \<Rightarrow> string list" where
  "sent_ids [] = []"
| "sent_ids (Sent u t # ls) = t # sent_ids ls"
| "sent_ids (_ # ls) = sent_ids ls"

text \<open>The delivery attempts that the lines report, in order: the identifier and the result.\<close>

fun attempts :: "line list \<Rightarrow> (string \<times> bool) list" where
  "attempts [] = []"
| "attempts (Sent u t # ls) = (t, True) # attempts ls"
| "attempts (Fail u t # ls) = (t, False) # attempts ls"
| "attempts (_ # ls) = attempts ls"

definition item_id :: "item \<Rightarrow> string" where
  "item_id it = or_empty (extract_tweet_id (link it))"

section \<open>The pushes of the delivery loop\<close>

text \<open>
  Lines 334 to 342 for one entry: the message is rendered and handed to the push step,
  which gives the result \<open>ok\<close> of the loop.
\<close>

definition push_item ::
  "'w ext \<Rightarrow> channel \<Rightarrow> string \<Rightarrow> item \<Rightarrow> 'w \<Rightarrow> (exn + bool \<times> line list) \<times> 'w" where
  "push_item E ch username it w =
     (case format_message (simple_translate E) (label_original E) username it of
        (msg, x_link) \<Rightarrow> push_message E ch username msg x_link w)"

text \<open>
  A run of pushes: the entries \<open>vis\<close> are pushed one after the other, the entry number
  \<open>i\<close> in the world \<open>ws ! i\<close>, with the result \<open>oks ! i\<close> and the next world
  \<open>ws ! (i + 1)\<close>. So \<open>ws\<close> lists the worlds from the one before the first push to the
  one after the last.
\<close>

definition pushed ::
  "'w ext \<Rightarrow> channel \<Rightarrow> string \<Rightarrow> item list \<Rightarrow> bool list \<Rightarrow> 'w list \<Rightarrow> bool" where
  "pushed E ch username vis oks ws \<longleftrightarrow>
     length oks = length vis \<and> length ws = Suc (length vis) \<and>
     (\<forall>i < length vis. \<exists>warn.
        push_item E ch username (vis ! i) (ws ! i) = (Inr (oks ! i, warn), ws ! Suc i))"

text \<open>The entries whose push returned true, in the order in which they were pushed.\<close>

definition confirmed :: "item list \<Rightarrow> bool list \<Rightarrow> item list" where
  "confirmed vis oks = map fst (filter snd (zip vis oks))"

section \<open>The watermark as an integer\<close>

text \<open>The stored \<open>last_id\<close> of an account read as an integer, when it is one.\<close>

definition watermark :: "users_state \<Rightarrow> string \<Rightarrow> int option" where
  "watermark us u = Option.bind (last_id_of us u) py_int"

text \<open>The same on a state as \<open>run_once\<close> receives and returns it.\<close>

definition state_watermark :: "state \<Rightarrow> string \<Rightarrow> int option" where
  "state_watermark st a = (case st_users st of None \<Rightarrow> None | Some us \<Rightarrow> watermark us a)"

section \<open>Sample data\<close>

text \<open>A feed of four entries, the newest first; the third has no identifier in its link.\<close>

definition entry :: "string \<Rightarrow> string \<Rightarrow> item" where
  "entry lnk date = \<lparr>title = ''hi'', link = lnk, pubDate = date, description = []\<rparr>"

definition sample_feed :: "item list" where
  "sample_feed =
     [entry ''/status/300'' ''d'', entry ''/status/200#m'' ''c'', entry ''/photo/7'' ''b'',
      entry ''/status/100'' ''a'']"

text \<open>
  The constructor of a request for the sample runs. On a plain URL such as theirs (no
  white space or angle brackets around it, no \<open>URL:\<close> before it, no number sign, no
  square bracket) the library accepts the URL exactly when it has a type: a colon follows
  a non-empty run of characters other than the slash and the colon.
\<close>

definition known_url_type :: "string \<Rightarrow> bool" where
  "known_url_type url =
     (let scheme = takeWhile (\<lambda>c. c \<noteq> CHR ''/'' \<and> c \<noteq> CHR '':'') url
      in scheme \<noteq> [] \<and> prefix '':'' (drop (length scheme) url))"

text \<open>
  A transport for the sample runs: it answers the requests from a list of outcomes, one
  after the other, and records every request; when the list is used up it answers with a
  \<open>URLError\<close>. Its world is the rest of the list and the record of the requests.
\<close>

definition scripted :: "(outcome list \<times> request list) transport" where
  "scripted r w =
     (case w of (script, log) \<Rightarrow>
        (case script of
           [] \<Rightarrow> (URLError, ([], log @ [r]))
         | oc # rest \<Rightarrow> (oc, (rest, log @ [r]))))"

text \<open>An element tree for the sample feed, as \<open>ET.fromstring\<close> would return it.\<close>

definition sample_item :: "string \<Rightarrow> string \<Rightarrow> element" where
  "sample_item lnk date =
     Element ''item'' None
       [Element ''title'' (Some '' hi '') [], Element ''link'' (Some lnk) [],
        Element ''pubDate'' (Some date) []]"

definition sample_root :: element where
  "sample_root =
     Element ''rss'' None
       [Element ''channel'' None
          [Element ''title'' (Some ''alice'') [],
           sample_item ''/status/300'' ''d'', sample_item ''/status/200#m'' ''c'',
           sample_item ''/photo/7'' ''b'', sample_item ''/status/100'' ''a'']]"

text \<open>
  A feed of two entries with dates in the format of RSS, the newer entry first, as a
  source delivers them.
\<close>

definition dated_root :: element where
  "dated_root =
     Element ''rss'' None
       [Element ''channel'' None
          [sample_item ''/status/200'' ''Fri, 10 Nov 2023 10:00:00 GMT'',
           sample_item ''/status/100'' ''Mon, 06 Nov 2023 10:00:00 GMT'']]"

definition sample_ext :: "(outcome list \<times> request list) ext" where
  "sample_ext =
     \<lparr>Request = known_url_type,
      urlopen = scripted,
      fromstring = (\<lambda>b. if b = ''<rss>'' then Root sample_root
                        else if b = ''<dated>'' then Root dated_root
                        else if b = ''<sjis>'' then ParserRaised ValueError else ParseError),
      loads = (\<lambda>b. if b = ''ok'' then Some (JObj [(''errcode'', JInt 0), (''errmsg'', JStr ''ok'')])
                   else if b = ''sc'' then Some (JObj [(''code'', JInt 0), (''message'', JStr [])])
                   else None),
      simple_translate = (\<lambda>s. s),
      label_original = ''Original: '',
      label_latest = '' latest''\<rparr>"

definition sample_channel :: channel where
  "sample_channel = \<lparr>method_name = ''wecom'', wecom_webhook = Some ''https://h/k'', serverchan_key = None\<rparr>"

definition sample_config :: config where
  "sample_config =
     \<lparr>users = Some [''alice''], nitter_instances = Some [''http://m1/''], push_method = None,
      push_wecom_webhook = Some ''https://h/k'', push_serverchan_sendkey = None\<rparr>"

definition sample_environ :: environ where
  "sample_environ = \<lparr>WECOM_WEBHOOK = None, SERVERCHAN_SENDKEY = None\<rparr>"

definition empty_state :: state where
  "empty_state = \<lparr>st_users = None, updated_at = None\<rparr>"

text \<open>The three requests that push the entries of the sample feed that have an identifier.\<close>

definition sample_posts :: "request list" where
  "sample_posts =
     map (\<lambda>t. POST_JSON ''https://h/k''
                 \<lparr>msgtype = ''text'',
                  content = ''@alice: hi'' @ newline @ ''https://x.com/alice/status/'' @ t\<rparr>)
       [''100'', ''200'', ''300'']"

text \<open>The state after a pass at \<open>t1\<close> that stored 300 for the sample account.\<close>

definition sample_state :: state where
  "sample_state =
     \<lparr>st_users = Some [''alice'' \<mapsto> [(''last_id'', SStr ''300'')]], updated_at = Some ''t1Z''\<rparr>"

section \<open>Notions for the second pass\<close>

text \<open>
  The integer identifiers of the items that have one never decrease along the list, and
  every delivery attempt among the printed lines was confirmed.
\<close>

definition ids_ascending :: "item list \<Rightarrow> bool" where
  "ids_ascending items = sorted (List.map_filter tweet_number items)"

definition all_confirmed :: "line list \<Rightarrow> bool" where
  "all_confirmed out = list_all snd (attempts out)"

text \<open>
  A transport that never fails: every fetch is answered with the sample feed and every
  push is accepted. Its world is the record of the requests.
\<close>

definition steady :: "request list transport" where
  "steady r log =
     ((case r of
         GET url \<Rightarrow> Returned 200 ''<rss>''
       | POST_JSON url payload \<Rightarrow> Returned 200 ''ok''
       | POST_FORM url form \<Rightarrow> Returned 200 ''ok''), log @ [r])"

definition steady_ext :: "request list ext" where
  "steady_ext =
     \<lparr>Request = known_url_type,
      urlopen = steady,
      fromstring = fromstring sample_ext,
      loads = loads sample_ext,
      simple_translate = (\<lambda>s. s),
      label_original = ''Original: '',
      label_latest = '' latest''\<rparr>"

section \<open>Observing the requests\<close>

text \<open>Any transport, with a record of the requests it was given added to its world.\<close>

definition logged :: "'w transport \<Rightarrow> ('w \<times> request list) transport" where
  "logged U r wl =
     (case wl of (w, log) \<Rightarrow> (case U r w of (oc, w') \<Rightarrow> (oc, (w', log @ [r]))))"

section \<open>Properties of the extraction and of the integer conversion\<close>

lemma match_status_digits:
  assumes "match_status s = Some d"
  shows "d \<noteq> [] \<and> (\<forall>c \<in> set d. is_digit c)"
proof -
  from assms have "d = takeWhile is_digit (drop 8 s) \<and> d \<noteq> []"
    by (auto simp: match_status_def Let_def split: if_splits list.splits)
  then show ?thesis
    by (metis set_takeWhileD)
qed

lemma extract_tweet_id_digits:
  "extract_tweet_id s = Some d \<Longrightarrow> d \<noteq> [] \<and> (\<forall>c \<in> set d. is_digit c)"
proof (induction s)
  case Nil
  then show ?case by simp
next
  case (Cons c cs)
  then show ?case
    by (cases "match_status (c # cs)") (auto dest: match_status_digits)
qed

lemma int_digits_all:
  "\<forall>c \<in> set s. is_digit c \<Longrightarrow> b \<or> s \<noteq> [] \<Longrightarrow>
   int_digits b acc s = Some (foldl (\<lambda>a c. 10 * a + digit_val c) acc s)"
proof (induction s arbitrary: b acc)
  case Nil
  then show ?case by simp
next
  case (Cons c cs)
  then have "int_digits True (10 * acc + digit_val c) cs =
             Some (foldl (\<lambda>a c. 10 * a + digit_val c) (10 * acc + digit_val c) cs)"
    by simp
  with Cons.prems show ?case by simp
qed

lemma digit_not_int_space: "is_digit c \<Longrightarrow> \<not> is_int_space c"
  by (auto simp: is_digit_def is_int_space_def Let_def)

lemma digit_not_sign: "is_digit c \<Longrightarrow> c \<noteq> CHR ''+'' \<and> c \<noteq> CHR ''-''"
  by (auto simp: is_digit_def code_point_def)

lemma dropWhile_hd_id: "s \<noteq> [] \<Longrightarrow> \<not> p (hd s) \<Longrightarrow> dropWhile p s = s"
  by (cases s) simp_all

lemma strip_with_digits:
  assumes "s \<noteq> []" "\<forall>c \<in> set s. is_digit c"
  shows "strip_with is_int_space s = s"
proof -
  have "hd s \<in> set s" "last s \<in> set s" using assms(1) by simp_all
  with assms(2) have "is_digit (hd s)" "is_digit (last s)" by blast+
  then have h: "\<not> is_int_space (hd s)" "\<not> is_int_space (hd (rev s))"
    using assms(1) by (simp_all add: digit_not_int_space hd_rev)
  have "dropWhile is_int_space s = s"
    using assms(1) h(1) by (rule dropWhile_hd_id)
  moreover have "dropWhile is_int_space (rev s) = rev s"
    using assms(1) h(2) by (intro dropWhile_hd_id) simp_all
  ultimately show ?thesis by (simp add: strip_with_def)
qed

lemma py_int_digits:
  assumes "s \<noteq> []" "\<forall>c \<in> set s. is_digit c"
  shows "py_int s = Some (int (decimal s))"
proof -
  obtain c cs where s: "s = c # cs" using assms(1) by (cases s) auto
  with assms(2) have "is_digit c" by simp
  then have "c \<noteq> CHR ''+''" "c \<noteq> CHR ''-''" using digit_not_sign by auto
  moreover have "int_digits False 0 s = Some (decimal s)"
    using int_digits_all[OF assms(2), of False 0] assms(1) by (simp add: decimal_def)
  ultimately show ?thesis
    using strip_with_digits[OF assms] s by (simp add: py_int_def)
qed

lemma py_int_tweet_id:
  "extract_tweet_id s = Some tid \<Longrightarrow> py_int tid = Some (int (decimal tid))"
  using extract_tweet_id_digits py_int_digits by blast

lemma tweet_number_None: "tweet_number it = None \<longleftrightarrow> extract_tweet_id (link it) = None"
  by (cases "extract_tweet_id (link it)") (auto simp: tweet_number_def dest: py_int_tweet_id)

lemma select_new_items_first_run:
  "select_new_items None items = Inr (filter (\<lambda>it. extract_tweet_id (link it) \<noteq> None) items)"
  by (induction items) (auto split: option.splits)

lemma select_new_items_watermark:
  assumes "py_int l = Some b"
  shows "select_new_items (Some l) items =
           Inr (filter (\<lambda>it. case tweet_number it of None \<Rightarrow> False | Some a \<Rightarrow> b < a) items)"
proof (induction items)
  case Nil
  then show ?case by simp
next
  case (Cons it its)
  show ?case
  proof (cases "extract_tweet_id (link it)")
    case None
    with Cons show ?thesis by (simp add: tweet_number_def)
  next
    case (Some tid)
    then have "py_int tid = Some (int (decimal tid))" by (rule py_int_tweet_id)
    with Some Cons assms show ?thesis by (simp add: tweet_number_def)
  qed
qed


section \<open>Properties of the delivery loop\<close>

lemma sent_ids_append: "sent_ids (xs @ ys) = sent_ids xs @ sent_ids ys"
  by (induction xs rule: sent_ids.induct) simp_all

lemma attempts_append: "attempts (xs @ ys) = attempts xs @ attempts ys"
  by (induction xs rule: attempts.induct) simp_all

lemma sent_ids_attempts: "sent_ids ls = map fst (filter snd (attempts ls))"
  by (induction ls rule: attempts.induct) simp_all

lemma push_message_warn:
  assumes "push_message E ch u msg x w = (Inr (ok, warn), w1)"
  shows "attempts warn = [] \<and> sent_ids warn = []"
  using assms
  by (auto simp: push_message_def split: if_splits prod.splits sum.splits)

lemma truthy_extract: "truthy (extract_tweet_id s) \<longleftrightarrow> extract_tweet_id s \<noteq> None"
  by (cases "extract_tweet_id s") (auto simp: truthy_def dest: extract_tweet_id_digits)

lemma deliver_items_attempts:
  assumes "deliver_items E ch u items latest w = (Inr (final, out), w')"
    and "\<forall>it \<in> set items. extract_tweet_id (link it) \<noteq> None"
  shows "map fst (attempts out) = map item_id items"
  using assms
proof (induction items arbitrary: latest w final out w')
  case Nil
  then show ?case by simp
next
  case (Cons it its)
  obtain msg x where fm: "format_message (simple_translate E) (label_original E) u it = (msg, x)"
    by (cases "format_message (simple_translate E) (label_original E) u it")
  from Cons.prems(1) fm obtain ok warn w1 where
    pm: "push_message E ch u msg x w = (Inr (ok, warn), w1)"
    by (auto split: prod.splits sum.splits)
  let ?tid = "extract_tweet_id (link it)"
  let ?sent = "ok \<and> truthy ?tid"
  from Cons.prems(1) fm pm obtain final1 out1 where
    rest: "deliver_items E ch u its (if ?sent then ?tid else latest) w1 = (Inr (final1, out1), w')"
    and out: "out = warn @ (if ?sent then Sent u (or_empty ?tid)
                else Fail u (if truthy ?tid then or_empty ?tid else ''unknown'')) # out1"
    by (auto simp: Let_def split: prod.splits sum.splits)
  from Cons.prems(2) have t: "truthy ?tid" by (simp add: truthy_extract)
  have "map fst (attempts out1) = map item_id its"
    using Cons.IH[OF rest] Cons.prems(2) by simp
  with out t push_message_warn[OF pm] show ?case
    by (simp add: attempts_append item_id_def)
qed

lemma deliver_items_final:
  assumes "deliver_items E ch u items latest w = (Inr (final, out), w')"
  shows "final = (if sent_ids out = [] then latest else Some (last (sent_ids out)))"
  using assms
proof (induction items arbitrary: latest w final out w')
  case Nil
  then show ?case by simp
next
  case (Cons it its)
  obtain msg x where fm: "format_message (simple_translate E) (label_original E) u it = (msg, x)"
    by (cases "format_message (simple_translate E) (label_original E) u it")
  from Cons.prems(1) fm obtain ok warn w1 where
    pm: "push_message E ch u msg x w = (Inr (ok, warn), w1)"
    by (auto split: prod.splits sum.splits)
  let ?tid = "extract_tweet_id (link it)"
  let ?sent = "ok \<and> truthy ?tid"
  from Cons.prems(1) fm pm obtain final1 out1 where
    rest: "deliver_items E ch u its (if ?sent then ?tid else latest) w1 = (Inr (final1, out1), w')"
    and out: "out = warn @ (if ?sent then Sent u (or_empty ?tid)
                else Fail u (if truthy ?tid then or_empty ?tid else ''unknown'')) # out1"
    and final: "final = final1"
    by (auto simp: Let_def split: prod.splits sum.splits)
  have IH: "final1 = (if sent_ids out1 = [] then (if ?sent then ?tid else latest)
                      else Some (last (sent_ids out1)))"
    using Cons.IH[OF rest] .
  show ?case
  proof (cases ?sent)
    case True
    then obtain t where t: "?tid = Some t" by (auto simp: truthy_def split: option.splits)
    with True out push_message_warn[OF pm] IH final show ?thesis
      by (simp add: sent_ids_append or_empty_def)
  next
    case False
    with out push_message_warn[OF pm] IH final show ?thesis
      by (auto simp: sent_ids_append)
  qed
qed

lemma deliver_items_lines:
  assumes "deliver_items E ch u items latest w = (Inr (final, out), w')"
  shows "set (sent_ids out) \<subseteq> item_id ` set items \<and>
         (\<forall>t \<in> set (sent_ids out). Sent u t \<in> set out) \<and>
         (\<forall>v t. Sent v t \<in> set out \<longrightarrow> v = u \<and> t \<in> set (sent_ids out))"
  using assms
proof (induction items arbitrary: latest w final out w')
  case Nil
  then show ?case by simp
next
  case (Cons it its)
  obtain msg x where fm: "format_message (simple_translate E) (label_original E) u it = (msg, x)"
    by (cases "format_message (simple_translate E) (label_original E) u it")
  from Cons.prems(1) fm obtain ok warn w1 where
    pm: "push_message E ch u msg x w = (Inr (ok, warn), w1)"
    by (auto split: prod.splits sum.splits)
  let ?tid = "extract_tweet_id (link it)"
  let ?sent = "ok \<and> truthy ?tid"
  from Cons.prems(1) fm pm obtain final1 out1 where
    rest: "deliver_items E ch u its (if ?sent then ?tid else latest) w1 = (Inr (final1, out1), w')"
    and out: "out = warn @ (if ?sent then Sent u (or_empty ?tid)
                else Fail u (if truthy ?tid then or_empty ?tid else ''unknown'')) # out1"
    by (auto simp: Let_def split: prod.splits sum.splits)
  have w: "warn = [] \<or> warn = [Warn_no_method]"
    using pm by (auto simp: push_message_def split: if_splits prod.splits sum.splits)
  from Cons.IH[OF rest] out w show ?case
    by (auto simp: sent_ids_append item_id_def)
qed

section \<open>The pushes behind the delivery loop\<close>

lemma deliver_items_step:
  assumes "deliver_items E ch u (it # its) latest w = (Inr (final, out), wn)"
  obtains ok warn w1 out1 where
    "push_item E ch u it w = (Inr (ok, warn), w1)"
    "deliver_items E ch u its
       (if ok \<and> truthy (extract_tweet_id (link it)) then extract_tweet_id (link it) else latest) w1 =
     (Inr (final, out1), wn)"
    "out = warn @ (if ok \<and> truthy (extract_tweet_id (link it))
                   then Sent u (or_empty (extract_tweet_id (link it)))
                   else Fail u (if truthy (extract_tweet_id (link it))
                                then or_empty (extract_tweet_id (link it)) else ''unknown'')) # out1"
    "warn = [] \<or> warn = [Warn_no_method]"
proof -
  obtain msg x where fm: "format_message (simple_translate E) (label_original E) u it = (msg, x)"
    by (cases "format_message (simple_translate E) (label_original E) u it")
  from assms fm obtain ok warn w1 where
    pm: "push_message E ch u msg x w = (Inr (ok, warn), w1)"
    by (auto split: prod.splits sum.splits)
  let ?tid = "extract_tweet_id (link it)"
  let ?sent = "ok \<and> truthy ?tid"
  from assms fm pm obtain out1 where
    rest: "deliver_items E ch u its (if ?sent then ?tid else latest) w1 = (Inr (final, out1), wn)"
    and out: "out = warn @ (if ?sent then Sent u (or_empty ?tid)
                else Fail u (if truthy ?tid then or_empty ?tid else ''unknown'')) # out1"
    by (auto simp: Let_def split: prod.splits sum.splits)
  have w: "warn = [] \<or> warn = [Warn_no_method]"
    using pm by (auto simp: push_message_def split: if_splits prod.splits sum.splits)
  from fm pm have "push_item E ch u it w = (Inr (ok, warn), w1)"
    by (simp add: push_item_def)
  from this rest out w show thesis by (rule that)
qed

lemma push_item_no_channel:
  assumes "\<not> (method_name ch = ''wecom'' \<and> truthy (wecom_webhook ch))"
    and "\<not> (method_name ch = ''serverchan'' \<and> truthy (serverchan_key ch))"
  shows "push_item E ch u it w = (Inr (False, [Warn_no_method]), w)"
proof -
  obtain msg x where "format_message (simple_translate E) (label_original E) u it = (msg, x)"
    by (cases "format_message (simple_translate E) (label_original E) u it")
  with assms show ?thesis by (auto simp: push_item_def push_message_def)
qed

lemma confirmed_Cons:
  "confirmed (it # its) (ok # oks) = (if ok then it # confirmed its oks else confirmed its oks)"
  by (simp add: confirmed_def)

lemma confirmed_subset: "set (confirmed its oks) \<subseteq> set its"
  by (auto simp: confirmed_def dest: set_zip_leftD)

lemma pushed_Nil: "pushed E ch u [] [] [w]"
  by (simp add: pushed_def)

lemma pushed_Cons:
  assumes "push_item E ch u it w = (Inr (ok, warn), w1)"
    and "pushed E ch u its oks ws" and "hd ws = w1"
  shows "pushed E ch u (it # its) (ok # oks) (w # ws)"
proof -
  from assms(2) have len: "length oks = length its" "length ws = Suc (length its)"
    and run: "\<And>i. i < length its \<Longrightarrow>
      \<exists>warn. push_item E ch u (its ! i) (ws ! i) = (Inr (oks ! i, warn), ws ! Suc i)"
    by (simp_all add: pushed_def)
  from len(2) have "ws \<noteq> []" by auto
  with assms(3) have w1: "ws ! 0 = w1" by (simp add: hd_conv_nth)
  have "\<exists>warn. push_item E ch u ((it # its) ! i) ((w # ws) ! i) =
          (Inr ((ok # oks) ! i, warn), (w # ws) ! Suc i)"
    if "i < length (it # its)" for i
  proof (cases i)
    case 0
    with assms(1) w1 show ?thesis by auto
  next
    case (Suc j)
    with that have "j < length its" by simp
    from run[OF this] Suc show ?thesis by simp
  qed
  with len show ?thesis by (simp add: pushed_def)
qed

text \<open>
  The delivery loop pushes every entry of its list, one after the other, and ends with the
  identifier of the last entry whose push returned true.
\<close>

lemma deliver_items_pushed:
  assumes "deliver_items E ch u its latest w = (Inr (final, out), wn)"
    and "\<forall>it \<in> set its. extract_tweet_id (link it) \<noteq> None"
  shows "\<exists>oks ws. pushed E ch u its oks ws \<and> hd ws = w \<and> last ws = wn \<and>
           final = (if confirmed its oks = [] then latest
                    else extract_tweet_id (link (last (confirmed its oks)))) \<and>
           sent_ids out = map item_id (confirmed its oks)"
  using assms
proof (induction its arbitrary: latest w final out)
  case Nil
  then have "pushed E ch u [] [] [w] \<and> hd [w] = w \<and> last [w] = wn \<and>
      final = (if confirmed [] [] = [] then latest
               else extract_tweet_id (link (last (confirmed [] [])))) \<and>
      sent_ids out = map item_id (confirmed [] [])"
    by (simp add: pushed_Nil confirmed_def)
  then show ?case by blast
next
  case (Cons it its)
  let ?tid = "extract_tweet_id (link it)"
  from Cons.prems(1) obtain ok warn w1 out1 where
    p: "push_item E ch u it w = (Inr (ok, warn), w1)"
    and rest: "deliver_items E ch u its (if ok \<and> truthy ?tid then ?tid else latest) w1 =
      (Inr (final, out1), wn)"
    and out: "out = warn @ (if ok \<and> truthy ?tid then Sent u (or_empty ?tid)
                else Fail u (if truthy ?tid then or_empty ?tid else ''unknown'')) # out1"
    and warn: "warn = [] \<or> warn = [Warn_no_method]"
    by (rule deliver_items_step)
  from Cons.prems(2) have t: "truthy ?tid" by (simp add: truthy_extract)
  from Cons.prems(2) have "\<forall>it \<in> set its. extract_tweet_id (link it) \<noteq> None" by simp
  from Cons.IH[OF rest this] obtain oks ws where
    run: "pushed E ch u its oks ws" and hd: "hd ws = w1" and last: "last ws = wn"
    and fin: "final = (if confirmed its oks = [] then (if ok \<and> truthy ?tid then ?tid else latest)
                       else extract_tweet_id (link (last (confirmed its oks))))"
    and sent: "sent_ids out1 = map item_id (confirmed its oks)"
    by blast
  from run have "ws \<noteq> []" by (auto simp: pushed_def)
  then have l: "last (w # ws) = wn" using last by simp
  have f: "final = (if confirmed (it # its) (ok # oks) = [] then latest
                    else extract_tweet_id (link (last (confirmed (it # its) (ok # oks)))))"
    using fin t by (simp add: confirmed_Cons)
  from warn have "sent_ids warn = []" by auto
  with out t sent have s: "sent_ids out = map item_id (confirmed (it # its) (ok # oks))"
    by (simp add: sent_ids_append confirmed_Cons item_id_def)
  from pushed_Cons[OF p run hd] l f s
  have "pushed E ch u (it # its) (ok # oks) (w # ws) \<and> hd (w # ws) = w \<and> last (w # ws) = wn \<and>
      final = (if confirmed (it # its) (ok # oks) = [] then latest
               else extract_tweet_id (link (last (confirmed (it # its) (ok # oks))))) \<and>
      sent_ids out = map item_id (confirmed (it # its) (ok # oks))"
    by simp
  then show ?case by blast
qed

text \<open>A \<open>[sent]\<close> line is printed only for an entry whose push has just returned true.\<close>

lemma deliver_items_sent_ok:
  assumes "deliver_items E ch u its latest w = (Inr (final, out), wn)" and "Sent v t \<in> set out"
  shows "v = u \<and> (\<exists>it \<in> set its. \<exists>w1 w2 warn.
           push_item E ch u it w1 = (Inr (True, warn), w2) \<and> extract_tweet_id (link it) = Some t)"
  using assms
proof (induction its arbitrary: latest w final out)
  case Nil
  then show ?case by simp
next
  case (Cons it its)
  let ?tid = "extract_tweet_id (link it)"
  from Cons.prems(1) obtain ok warn w1 out1 where
    p: "push_item E ch u it w = (Inr (ok, warn), w1)"
    and rest: "deliver_items E ch u its (if ok \<and> truthy ?tid then ?tid else latest) w1 =
      (Inr (final, out1), wn)"
    and out: "out = warn @ (if ok \<and> truthy ?tid then Sent u (or_empty ?tid)
                else Fail u (if truthy ?tid then or_empty ?tid else ''unknown'')) # out1"
    and warn: "warn = [] \<or> warn = [Warn_no_method]"
    by (rule deliver_items_step)
  show ?case
  proof (cases "Sent v t \<in> set out1")
    case True
    from Cons.IH[OF rest True] obtain it' w1' w2' warn' where
      "v = u" "it' \<in> set its" "push_item E ch u it' w1' = (Inr (True, warn'), w2')"
      "extract_tweet_id (link it') = Some t"
      by blast
    then have "v = u" "it' \<in> set (it # its)"
      "push_item E ch u it' w1' = (Inr (True, warn'), w2') \<and> extract_tweet_id (link it') = Some t"
      by simp_all
    then show ?thesis by blast
  next
    case False
    let ?line = "if ok \<and> truthy ?tid then Sent u (or_empty ?tid)
                 else Fail u (if truthy ?tid then or_empty ?tid else ''unknown'')"
    from warn have nw: "Sent v t \<notin> set warn" by auto
    from Cons.prems(2) have "Sent v t \<in> set (warn @ ?line # out1)" unfolding out .
    with nw False have e: "Sent v t = ?line" by simp
    show ?thesis
    proof (cases "ok \<and> truthy ?tid")
      case True
      with e have vt: "v = u" "t = or_empty ?tid" by simp_all
      from True obtain t' where t': "?tid = Some t'"
        by (auto simp: truthy_def split: option.splits)
      with vt(2) have "t' = t" by (simp add: or_empty_def)
      with t' True p have "it \<in> set (it # its)"
        "push_item E ch u it w = (Inr (True, warn), w1) \<and> extract_tweet_id (link it) = Some t"
        by simp_all
      with vt(1) show ?thesis by blast
    next
      case False
      with e show ?thesis by simp
    qed
  qed
qed

section \<open>Properties of the processing of one account\<close>

lemma select_new_items_sound:
  assumes "select_new_items lo items = Inr new" "it \<in> set new"
  shows "it \<in> set items \<and>
         (\<exists>t. extract_tweet_id (link it) = Some t \<and>
              (\<forall>l. lo = Some l \<longrightarrow> (\<exists>a b. py_int t = Some a \<and> py_int l = Some b \<and> b < a)))"
proof (cases lo)
  case None
  with assms show ?thesis by (auto simp: select_new_items_first_run)
next
  case (Some l)
  show ?thesis
  proof (cases "py_int l")
    case None
    have "select_new_items (Some l) xs = Inr ys \<Longrightarrow> ys = []" for xs ys
      using None
      by (induction xs arbitrary: ys) (auto split: option.splits)
    with assms(1) Some have "new = []" by blast
    with assms(2) show ?thesis by simp
  next
    case (Some b)
    with assms \<open>lo = Some l\<close> show ?thesis
      by (auto simp: select_new_items_watermark tweet_number_def split: option.splits Option.bind_splits)
  qed
qed

lemma process_user_cases:
  assumes "process_user E insts ch u us w = (Inr (us', out), w')"
  obtains
    (no_items) "fetch_latest_from_nitter (Request E) (urlopen E) (fromstring E) insts u w = (Inr [], w')"
      "us' = us" "out = [Info_no_items u]"
  | (no_new) items where
      "fetch_latest_from_nitter (Request E) (urlopen E) (fromstring E) insts u w = (Inr items, w')"
      "items \<noteq> []" "select_new_items (last_id_of us u) items = Inr []"
      "us' = us" "out = [Info_no_new u]"
  | (delivered) items w1 new final where
      "fetch_latest_from_nitter (Request E) (urlopen E) (fromstring E) insts u w = (Inr items, w1)"
      "items \<noteq> []" "select_new_items (last_id_of us u) items = Inr new" "new \<noteq> []"
      "deliver_items E ch u (sort_key pubDate new) (last_id_of us u) w1 = (Inr (final, out), w')"
      "us' = (if truthy final then us(u \<mapsto> [(''last_id'', SStr (or_empty final))]) else us)"
proof -
  obtain r w1 where f: "fetch_latest_from_nitter (Request E) (urlopen E) (fromstring E) insts u w = (r, w1)"
    by (cases "fetch_latest_from_nitter (Request E) (urlopen E) (fromstring E) insts u w")
  show thesis
  proof (cases r)
    case (Inl e)
    with assms f show ?thesis by (simp add: process_user_def)
  next
    case (Inr items)
    show ?thesis
    proof (cases "items = []")
      case True
      with assms f Inr have "us' = us" "out = [Info_no_items u]" "w' = w1"
        by (simp_all add: process_user_def)
      with f Inr True no_items show ?thesis by simp
    next
      case ne: False
      show ?thesis
      proof (cases "select_new_items (last_id_of us u) items")
        case (Inl e)
        with assms f \<open>r = Inr items\<close> ne show ?thesis by (simp add: process_user_def)
      next
        case sel: (Inr new)
        show ?thesis
        proof (cases "new = []")
          case True
          with assms f \<open>r = Inr items\<close> ne sel
          have "us' = us" "out = [Info_no_new u]" "w' = w1"
            by (simp_all add: process_user_def)
          with f \<open>r = Inr items\<close> ne sel True no_new show ?thesis by simp
        next
          case nn: False
          obtain d w2 where
            d: "deliver_items E ch u (sort_key pubDate new) (last_id_of us u) w1 = (d, w2)"
            by (cases "deliver_items E ch u (sort_key pubDate new) (last_id_of us u) w1")
          show ?thesis
          proof (cases d)
            case (Inl e)
            with assms f \<open>r = Inr items\<close> ne sel nn d show ?thesis
              by (simp add: process_user_def)
          next
            case dr: (Inr p)
            obtain final out1 where p: "p = (final, out1)" by (cases p)
            with assms f \<open>r = Inr items\<close> ne sel nn d dr
            have "us' = (if truthy final then us(u \<mapsto> [(''last_id'', SStr (or_empty final))]) else us)"
              "out = out1" "w' = w2"
              by (simp_all add: process_user_def)
            with f \<open>r = Inr items\<close> ne sel nn d dr p delivered show ?thesis by simp
          qed
        qed
      qed
    qed
  qed
qed

lemma process_user_other:
  assumes "process_user E insts ch u us w = (Inr (us', out), w')" "v \<noteq> u"
  shows "us' v = us v"
  using assms(1)
  by (cases rule: process_user_cases) (use assms(2) in auto)

lemma last_id_of_other:
  "us' v = us v \<Longrightarrow> last_id_of us' v = last_id_of us v"
  by (simp add: last_id_of_def)

lemma last_id_of_written: "last_id_of (us(u \<mapsto> [(''last_id'', SStr t)])) u = Some t"
  by (simp add: last_id_of_def)

lemma process_user_sent:
  assumes "process_user E insts ch u us w = (Inr (us', out), w')" "t \<in> set (sent_ids out)"
  shows "t \<noteq> [] \<and> Sent u t \<in> set out \<and>
         (\<forall>l. last_id_of us u = Some l \<longrightarrow> (\<exists>a b. py_int t = Some a \<and> py_int l = Some b \<and> b < a))"
  using assms(1)
proof (cases rule: process_user_cases)
  case no_items
  with assms(2) show ?thesis by simp
next
  case (no_new items)
  with assms(2) show ?thesis by simp
next
  case (delivered items w1 new final)
  from deliver_items_lines[OF delivered(5)] assms(2)
  obtain it where it: "it \<in> set new" "t = item_id it" and s: "Sent u t \<in> set out"
    by auto
  from select_new_items_sound[OF delivered(3) it(1)] obtain t' where
    t': "extract_tweet_id (link it) = Some t'"
      "\<forall>l. last_id_of us u = Some l \<longrightarrow> (\<exists>a b. py_int t' = Some a \<and> py_int l = Some b \<and> b < a)"
    by blast
  from t'(1) it(2) have "t = t'" by (simp add: item_id_def or_empty_def)
  with t' s extract_tweet_id_digits[OF t'(1)] show ?thesis by blast
qed

lemma process_user_lines:
  assumes "process_user E insts ch u us w = (Inr (us', out), w')" "Sent v t \<in> set out"
  shows "v = u \<and> t \<in> set (sent_ids out)"
  using assms(1)
proof (cases rule: process_user_cases)
  case no_items
  with assms(2) show ?thesis by simp
next
  case (no_new items)
  with assms(2) show ?thesis by simp
next
  case (delivered items w1 new final)
  from deliver_items_lines[OF delivered(5)] assms(2) show ?thesis by blast
qed

lemma process_user_last_id:
  assumes "process_user E insts ch u us w = (Inr (us', out), w')"
  shows "last_id_of us' u =
           (if sent_ids out = [] then last_id_of us u else Some (last (sent_ids out)))"
  using assms
proof (cases rule: process_user_cases)
  case no_items
  then show ?thesis by simp
next
  case (no_new items)
  then show ?thesis by simp
next
  case (delivered items w1 new final)
  note fin = deliver_items_final[OF delivered(5)]
  show ?thesis
  proof (cases "sent_ids out = []")
    case True
    with fin have f: "final = last_id_of us u" by simp
    show ?thesis
    proof (cases "truthy final")
      case True
      then obtain l where l: "final = Some l" by (auto simp: truthy_def split: option.splits)
      with delivered(6) True have "us' = us(u \<mapsto> [(''last_id'', SStr l)])"
        by (simp add: or_empty_def)
      then have "last_id_of us' u = Some l" by (simp add: last_id_of_written)
      with l f \<open>sent_ids out = []\<close> show ?thesis by simp
    next
      case False
      with delivered(6) \<open>sent_ids out = []\<close> show ?thesis by simp
    qed
  next
    case False
    then have "last (sent_ids out) \<in> set (sent_ids out)" by simp
    from process_user_sent[OF assms this] have "last (sent_ids out) \<noteq> []" by simp
    with fin False have "truthy final" "or_empty final = last (sent_ids out)"
      by (simp_all add: truthy_def or_empty_def)
    with delivered(6) False show ?thesis by (simp add: last_id_of_written)
  qed
qed

lemma process_user_watermark_mono:
  assumes "process_user E insts ch u us w = (Inr (us', out), w')" "watermark us a = Some x"
  shows "\<exists>y. watermark us' a = Some y \<and> x \<le> y"
proof (cases "a = u")
  case False
  then have "us' a = us a" using process_user_other[OF assms(1)] by simp
  then have "last_id_of us' a = last_id_of us a" by (rule last_id_of_other)
  with assms(2) show ?thesis by (simp add: watermark_def)
next
  case True
  show ?thesis
  proof (cases "sent_ids out = []")
    case e: True
    with process_user_last_id[OF assms(1)] assms(2) True show ?thesis
      by (simp add: watermark_def)
  next
    case ne: False
    then have m: "last (sent_ids out) \<in> set (sent_ids out)" by simp
    from assms(2) True obtain l where l: "last_id_of us u = Some l" "py_int l = Some x"
      by (auto simp: watermark_def split: Option.bind_splits)
    from process_user_sent[OF assms(1) m] l obtain y where
      "py_int (last (sent_ids out)) = Some y" "x < y" by auto
    with process_user_last_id[OF assms(1)] ne True show ?thesis
      by (simp add: watermark_def)
  qed
qed

lemma process_user_watermark_change:
  assumes "process_user E insts ch u us w = (Inr (us', out), w')" "watermark us' a \<noteq> watermark us a"
  shows "\<exists>t. Sent a t \<in> set out \<and> watermark us' a = py_int t"
proof (cases "a = u")
  case False
  then have "us' a = us a" using process_user_other[OF assms(1)] by simp
  then have "last_id_of us' a = last_id_of us a" by (rule last_id_of_other)
  with assms(2) show ?thesis by (simp add: watermark_def)
next
  case True
  with assms(2) process_user_last_id[OF assms(1)] have ne: "sent_ids out \<noteq> []"
    by (auto simp: watermark_def)
  then have m: "last (sent_ids out) \<in> set (sent_ids out)" by simp
  from process_user_sent[OF assms(1) m] have "Sent u (last (sent_ids out)) \<in> set out" by simp
  moreover have "watermark us' u = py_int (last (sent_ids out))"
    using process_user_last_id[OF assms(1)] ne by (simp add: watermark_def)
  ultimately show ?thesis using True by blast
qed

lemma process_user_no_items:
  assumes "fetch_latest_from_nitter (Request E) (urlopen E) (fromstring E) insts u w = (Inr [], w1)"
  shows "process_user E insts ch u us w = (Inr (us, [Info_no_items u]), w1)"
  using assms by (simp add: process_user_def)

lemma process_user_no_new:
  assumes "fetch_latest_from_nitter (Request E) (urlopen E) (fromstring E) insts u w = (Inr items, w1)"
    and "select_new_items (last_id_of us u) items = Inr []"
  shows "process_user E insts ch u us w =
           (Inr (us, [if items = [] then Info_no_items u else Info_no_new u]), w1)"
  using assms by (simp add: process_user_def)

lemma process_user_delivered:
  assumes "fetch_latest_from_nitter (Request E) (urlopen E) (fromstring E) insts u w = (Inr items, w1)"
    and "select_new_items (last_id_of us u) items = Inr new" and "new \<noteq> []"
    and "deliver_items E ch u (sort_key pubDate new) (last_id_of us u) w1 = (Inr (final, out), w2)"
  shows "process_user E insts ch u us w =
           (Inr (if truthy final then us(u \<mapsto> [(''last_id'', SStr (or_empty final))]) else us,
                 out), w2)"
proof -
  from assms(2,3) have "items \<noteq> []" by auto
  with assms show ?thesis by (simp add: process_user_def)
qed

lemma process_user_attempts:
  assumes "fetch_latest_from_nitter (Request E) (urlopen E) (fromstring E) insts u w = (Inr items, w1)"
    and "select_new_items (last_id_of us u) items = Inr new"
    and "process_user E insts ch u us w = (Inr (us', out), w')"
  shows "map fst (attempts out) = map item_id (sort_key pubDate new)"
  using assms(3)
proof (cases rule: process_user_cases)
  case no_items
  with assms(1,2) show ?thesis by simp
next
  case (no_new items')
  with assms(1,2) show ?thesis by simp
next
  case (delivered items' w1' new' final)
  with assms(1,2) have n: "new' = new" by simp
  have "\<forall>it \<in> set (sort_key pubDate new). extract_tweet_id (link it) \<noteq> None"
    using select_new_items_sound[OF assms(2)] by auto
  with deliver_items_attempts[OF delivered(5)[unfolded n]] show ?thesis by simp
qed

lemma process_user_sent_ok:
  assumes "process_user E insts ch u us w = (Inr (us', out), w')" and "Sent v t \<in> set out"
  shows "v = u \<and> (\<exists>it w1 w2 warn.
           push_item E ch u it w1 = (Inr (True, warn), w2) \<and> extract_tweet_id (link it) = Some t)"
  using assms(1)
proof (cases rule: process_user_cases)
  case no_items
  with assms(2) show ?thesis by simp
next
  case (no_new items)
  with assms(2) show ?thesis by simp
next
  case (delivered items w1 new final)
  from deliver_items_sent_ok[OF delivered(5) assms(2)] show ?thesis by blast
qed

text \<open>
  What the processing of one account does with the entries that the filter kept: it pushes
  each of them once, whatever the results of the earlier pushes, and stores the identifier
  of the last entry, in the order of the pushes, whose push returned true.
\<close>

lemma process_user_pushed:
  assumes "fetch_latest_from_nitter (Request E) (urlopen E) (fromstring E) insts u w = (Inr items, w1)"
    and "select_new_items (last_id_of us u) items = Inr new"
    and "process_user E insts ch u us w = (Inr (us', out), wn)"
  shows "\<exists>oks ws. pushed E ch u (sort_key pubDate new) oks ws \<and> hd ws = w1 \<and> last ws = wn \<and>
           last_id_of us' u =
             (if confirmed (sort_key pubDate new) oks = [] then last_id_of us u
              else extract_tweet_id (link (last (confirmed (sort_key pubDate new) oks)))) \<and>
           sent_ids out = map item_id (confirmed (sort_key pubDate new) oks)"
  using assms(3)
proof (cases rule: process_user_cases)
  case no_items
  with assms(1,2) have "new = []" "wn = w1" "us' = us" by auto
  with no_items(3)
  have "pushed E ch u (sort_key pubDate new) [] [w1] \<and> hd [w1] = w1 \<and> last [w1] = wn \<and>
      last_id_of us' u =
        (if confirmed (sort_key pubDate new) [] = [] then last_id_of us u
         else extract_tweet_id (link (last (confirmed (sort_key pubDate new) [])))) \<and>
      sent_ids out = map item_id (confirmed (sort_key pubDate new) [])"
    by (simp add: pushed_Nil confirmed_def)
  then show ?thesis by blast
next
  case (no_new items')
  with assms(1,2) have "new = []" "wn = w1" "us' = us" by auto
  with no_new(5)
  have "pushed E ch u (sort_key pubDate new) [] [w1] \<and> hd [w1] = w1 \<and> last [w1] = wn \<and>
      last_id_of us' u =
        (if confirmed (sort_key pubDate new) [] = [] then last_id_of us u
         else extract_tweet_id (link (last (confirmed (sort_key pubDate new) [])))) \<and>
      sent_ids out = map item_id (confirmed (sort_key pubDate new) [])"
    by (simp add: pushed_Nil confirmed_def)
  then show ?thesis by blast
next
  case (delivered items' w1' new' final)
  with assms(1,2) have eq: "items' = items" "w1' = w1" "new' = new" by simp_all
  let ?vis = "sort_key pubDate new"
  have ids: "\<forall>it \<in> set ?vis. extract_tweet_id (link it) \<noteq> None"
    using select_new_items_sound[OF assms(2)] by auto
  from deliver_items_pushed[OF delivered(5)[unfolded eq] ids] obtain oks ws where
    run: "pushed E ch u ?vis oks ws" "hd ws = w1" "last ws = wn"
    and fin: "final = (if confirmed ?vis oks = [] then last_id_of us u
                       else extract_tweet_id (link (last (confirmed ?vis oks))))"
    and sent: "sent_ids out = map item_id (confirmed ?vis oks)"
    by blast
  have "last_id_of us' u = final"
  proof (cases "truthy final")
    case True
    then obtain l where "final = Some l" by (auto simp: truthy_def split: option.splits)
    with delivered(6) True show ?thesis by (simp add: or_empty_def last_id_of_written)
  next
    case False
    have "confirmed ?vis oks = []"
    proof (rule ccontr)
      assume ne: "confirmed ?vis oks \<noteq> []"
      then have "last (confirmed ?vis oks) \<in> set ?vis"
        using confirmed_subset[of ?vis oks] last_in_set by blast
      with ids have "truthy (extract_tweet_id (link (last (confirmed ?vis oks))))"
        by (simp add: truthy_extract)
      with fin ne False show False by simp
    qed
    with fin delivered(6) False show ?thesis by simp
  qed
  with run fin sent show ?thesis by blast
qed

section \<open>Properties of a pass and of a sequence of passes\<close>

lemma process_users_sent_ok:
  assumes "process_users E insts ch names us w = (Inr (us', out), w')" and "Sent a t \<in> set out"
  shows "\<exists>it w1 w2 warn.
           push_item E ch a it w1 = (Inr (True, warn), w2) \<and> extract_tweet_id (link it) = Some t"
  using assms
proof (induction names arbitrary: us w out)
  case Nil
  then show ?case by simp
next
  case (Cons u rest)
  from Cons.prems(1) obtain us1 out1 w1 out2 where
    p: "process_user E insts ch u us w = (Inr (us1, out1), w1)"
    and r: "process_users E insts ch rest us1 w1 = (Inr (us', out2), w')"
    and out: "out = out1 @ out2"
    by (auto split: prod.splits sum.splits)
  show ?case
  proof (cases "Sent a t \<in> set out1")
    case True
    from process_user_sent_ok[OF p True] show ?thesis by blast
  next
    case False
    with Cons.prems(2) out have "Sent a t \<in> set out2" by simp
    from Cons.IH[OF r this] show ?thesis .
  qed
qed

lemma process_users_watermark:
  assumes "process_users E insts ch names us w = (Inr (us', out), w')"
  shows "(\<forall>x. watermark us a = Some x \<longrightarrow> (\<exists>y. watermark us' a = Some y \<and> x \<le> y)) \<and>
         (watermark us' a \<noteq> watermark us a \<longrightarrow>
            (\<exists>t. Sent a t \<in> set out \<and> watermark us' a = py_int t))"
  using assms
proof (induction names arbitrary: us w us' out w')
  case Nil
  then show ?case by simp
next
  case (Cons u rest)
  from Cons.prems obtain us1 out1 w1 where
    p: "process_user E insts ch u us w = (Inr (us1, out1), w1)"
    by (auto split: prod.splits sum.splits)
  with Cons.prems obtain out2 where
    r: "process_users E insts ch rest us1 w1 = (Inr (us', out2), w')" and out: "out = out1 @ out2"
    by (auto split: prod.splits sum.splits)
  note IH = Cons.IH[OF r]
  have mono: "\<exists>y. watermark us' a = Some y \<and> x \<le> y" if "watermark us a = Some x" for x
  proof -
    from process_user_watermark_mono[OF p that] obtain y where
      "watermark us1 a = Some y" "x \<le> y" by blast
    with IH show ?thesis by fastforce
  qed
  have change: "\<exists>t. Sent a t \<in> set out \<and> watermark us' a = py_int t"
    if "watermark us' a \<noteq> watermark us a"
  proof (cases "watermark us' a = watermark us1 a")
    case True
    with that have "watermark us1 a \<noteq> watermark us a" by simp
    from process_user_watermark_change[OF p this] True out show ?thesis by auto
  next
    case False
    with IH out show ?thesis by auto
  qed
  from mono change show ?case by blast
qed

lemma run_once_Inr:
  assumes "run_once E env utcnow cfg st w = (Inr (st', out), w')"
  obtains us' out0 where
    "process_users E (instances_of cfg) (channel_of cfg env) (users_of cfg)
       (case st_users st of None \<Rightarrow> Map.empty | Some m \<Rightarrow> m) w = (Inr (us', out0), w')"
    "st' = \<lparr>st_users = Some us', updated_at = Some (utcnow @ ''Z'')\<rparr>"
    "sent_ids out = sent_ids out0" "attempts out = attempts out0"
    "\<And>a t. Sent a t \<in> set out \<longleftrightarrow> Sent a t \<in> set out0"
proof -
  let ?p = "process_users E (instances_of cfg) (channel_of cfg env) (users_of cfg)
       (case st_users st of None \<Rightarrow> Map.empty | Some m \<Rightarrow> m) w"
  obtain r w1 where p: "?p = (r, w1)" by (cases ?p)
  show thesis
  proof (cases r)
    case (Inl e)
    with assms p show ?thesis by (simp add: run_once_def Let_def)
  next
    case (Inr q)
    obtain us' out0 where q: "q = (us', out0)" by (cases q)
    from assms p Inr q have
      "st' = \<lparr>st_users = Some us', updated_at = Some (utcnow @ ''Z'')\<rparr>" "w' = w1"
      "\<exists>pre. out = pre @ out0 \<and> set pre \<subseteq> {Warn_wecom, Warn_serverchan}"
      by (auto simp: run_once_def Let_def)
    moreover have "sent_ids pre = [] \<and> attempts pre = [] \<and> (\<forall>a t. Sent a t \<notin> set pre)"
      if "set pre \<subseteq> {Warn_wecom, Warn_serverchan}" for pre
      using that by (induction pre) auto
    ultimately show ?thesis
      using that[of us' out0] p Inr q by (auto simp: sent_ids_append attempts_append)
  qed
qed

lemma run_once_watermark:
  assumes "run_once E env utcnow cfg st w = (Inr (st', out), w')"
  shows "(\<forall>x. state_watermark st a = Some x \<longrightarrow> (\<exists>y. state_watermark st' a = Some y \<and> x \<le> y)) \<and>
         (state_watermark st' a \<noteq> state_watermark st a \<longrightarrow>
            (\<exists>t. Sent a t \<in> set out \<and> state_watermark st' a = py_int t))"
  using assms
proof (cases rule: run_once_Inr)
  case (1 us' out0)
  let ?us = "case st_users st of None \<Rightarrow> Map.empty | Some m \<Rightarrow> m"
  have "state_watermark st a = watermark ?us a"
    by (simp add: state_watermark_def watermark_def last_id_of_def split: option.splits)
  moreover have "state_watermark st' a = watermark us' a"
    using 1(2) by (simp add: state_watermark_def)
  ultimately show ?thesis
    using process_users_watermark[OF 1(1), of a] 1(5) by simp
qed

lemma run_once_sent_ok:
  assumes "run_once E env utcnow cfg st w = (Inr (st', out), w')" and "Sent a t \<in> set out"
  shows "\<exists>it w1 w2 warn. push_item E (channel_of cfg env) a it w1 = (Inr (True, warn), w2) \<and>
           extract_tweet_id (link it) = Some t"
  using assms(1)
proof (cases rule: run_once_Inr)
  case (1 us' out0)
  from 1(5) assms(2) have "Sent a t \<in> set out0" by simp
  with 1(1) show ?thesis by (rule process_users_sent_ok)
qed

lemma run_once_eq:
  assumes "process_users E (instances_of cfg) (channel_of cfg env) (users_of cfg)
             (case st_users st of None \<Rightarrow> Map.empty | Some m \<Rightarrow> m) w = (Inr (us', out), w')"
    and "truthy (wecom_webhook (channel_of cfg env))" "method_name (channel_of cfg env) = ''wecom''"
  shows "run_once E env utcnow cfg st w =
           (Inr (\<lparr>st_users = Some us', updated_at = Some (utcnow @ ''Z'')\<rparr>, out), w')"
  using assms by (simp add: run_once_def Let_def)

lemma process_users_single:
  assumes "process_user E insts ch u us w = (Inr (us', out), w')"
  shows "process_users E insts ch [u] us w = (Inr (us', out), w')"
  using assms by simp

section \<open>Two passes over an unchanged feed\<close>

lemma fetch_sorted:
  "fetch_latest_from_nitter R U F insts u w = (Inr items, w') \<Longrightarrow> sorted (map pubDate items)"
proof (induction insts arbitrary: w)
  case Nil
  then show ?case by simp
next
  case (Cons base insts)
  obtain r w1 where h: "http_get R U (rss_url base u) w = (r, w1)"
    by (cases "http_get R U (rss_url base u) w")
  show ?case
  proof (cases r)
    case (Inl e)
    with Cons.prems h show ?thesis by simp
  next
    case (Inr p)
    obtain code body where p: "p = (code, body)" by (cases p)
    show ?thesis
    proof (cases "code = 200 \<and> body \<noteq> []")
      case True
      with Cons.prems h Inr p obtain parsed where "items = sort_key pubDate parsed"
        by (auto split: sum.splits)
      then show ?thesis by simp
    next
      case False
      with Cons.prems h Inr p have "fetch_latest_from_nitter R U F insts u w1 = (Inr items, w')"
        by auto
      then show ?thesis by (rule Cons.IH)
    qed
  qed
qed

lemma all_confirmed_sent_ids: "all_confirmed out \<Longrightarrow> sent_ids out = map fst (attempts out)"
  by (simp add: all_confirmed_def sent_ids_attempts list_all_iff)

lemma all_confirmed_append: "all_confirmed (xs @ ys) \<longleftrightarrow> all_confirmed xs \<and> all_confirmed ys"
  by (simp add: all_confirmed_def attempts_append)

lemma sorted_le_last: "sorted xs \<Longrightarrow> (a::int) \<in> set xs \<Longrightarrow> a \<le> last xs"
proof (induction xs)
  case Nil
  then show ?case by simp
next
  case (Cons x xs)
  then show ?case by (cases xs) auto
qed

lemma map_filter_filter:
  "List.map_filter f (filter (\<lambda>x. case f x of None \<Rightarrow> False | Some a \<Rightarrow> Q a) xs) =
   filter Q (List.map_filter f xs)"
  by (induction xs) (auto simp: List.map_filter_simps split: option.splits)

lemma last_map_filter:
  "xs \<noteq> [] \<Longrightarrow> f (last xs) = Some n \<Longrightarrow> last (List.map_filter f xs) = n"
proof (induction xs)
  case Nil
  then show ?case by simp
next
  case (Cons x xs)
  show ?case
  proof (cases "xs = []")
    case True
    with Cons.prems show ?thesis by (simp add: List.map_filter_simps)
  next
    case False
    with Cons have l: "last (List.map_filter f xs) = n" by simp
    have "List.map_filter f xs \<noteq> []"
      using False Cons.prems(2) by (auto simp: List.map_filter_def filter_empty_conv intro!: bexI[of _ "last xs"])
    with l False show ?thesis by (simp add: List.map_filter_simps split: option.splits)
  qed
qed

text \<open>What the filter keeps, in one form for both cases of the stored identifier.\<close>

lemma select_new_items_filter:
  assumes "select_new_items lo items = Inr new" "new \<noteq> []"
  obtains Q where
    "new = filter (\<lambda>it. case tweet_number it of None \<Rightarrow> False | Some a \<Rightarrow> Q a) items"
    "\<And>a n. \<not> Q a \<Longrightarrow> Q n \<Longrightarrow> a \<le> n"
proof (cases lo)
  case None
  have "(extract_tweet_id (link it) \<noteq> None) = (case tweet_number it of None \<Rightarrow> False | Some a \<Rightarrow> True)" for it
    using tweet_number_None[of it] by (auto split: option.splits)
  with assms None have "new = filter (\<lambda>it. case tweet_number it of None \<Rightarrow> False | Some a \<Rightarrow> (\<lambda>a. True) a) items"
    by (simp add: select_new_items_first_run)
  then show ?thesis by (rule that) simp
next
  case (Some l)
  from assms(2) obtain it where "it \<in> set new" by (cases new) auto
  from select_new_items_sound[OF assms(1) this] Some obtain b where "py_int l = Some b" by auto
  with assms Some have "new = filter (\<lambda>it. case tweet_number it of None \<Rightarrow> False | Some a \<Rightarrow> b < a) items"
    by (simp add: select_new_items_watermark)
  then show ?thesis by (rule that) simp
qed

lemma process_user_settles:
  assumes pu: "process_user E insts ch u us w = (Inr (us', out), w')"
    and f: "fst (fetch_latest_from_nitter (Request E) (urlopen E) (fromstring E) insts u w) = Inr items"
    and asc: "ids_ascending items" and ok: "all_confirmed out"
  shows "select_new_items (last_id_of us' u) items = Inr []"
  using pu
proof (cases rule: process_user_cases)
  case no_items
  with f show ?thesis by simp
next
  case (no_new items')
  with f show ?thesis by simp
next
  case (delivered items' w1 new final)
  with f have items: "items' = items" by simp
  note sel = delivered(3)[unfolded items]
  from select_new_items_filter[OF sel delivered(4)] obtain Q where
    new: "new = filter (\<lambda>it. case tweet_number it of None \<Rightarrow> False | Some a \<Rightarrow> Q a) items"
    and Q: "\<And>a n. \<not> Q a \<Longrightarrow> Q n \<Longrightarrow> a \<le> n" by blast
  have "sorted (map pubDate items)"
    using fetch_sorted[OF delivered(1)] items by simp
  then have "sorted (map pubDate new)" unfolding new by (rule sorted_filter)
  then have srt: "sort_key pubDate new = new" by (rule sort_key_id_if_sorted)
  have att: "map fst (attempts out) = map item_id new"
    using process_user_attempts[OF delivered(1)[unfolded items] sel pu] srt by simp
  with all_confirmed_sent_ids[OF ok] have sent: "sent_ids out = map item_id new" by simp
  with delivered(4) have "sent_ids out \<noteq> []" "last (sent_ids out) = item_id (last new)"
    by (simp_all add: last_map)
  with process_user_last_id[OF pu] have lid: "last_id_of us' u = Some (item_id (last new))"
    by simp
  have "last new \<in> set new" using delivered(4) by simp
  from select_new_items_sound[OF sel this] obtain t where
    t: "extract_tweet_id (link (last new)) = Some t" by blast
  then have id: "item_id (last new) = t" by (simp add: item_id_def or_empty_def)
  from py_int_tweet_id[OF t] obtain n where n: "py_int t = Some n" by blast
  with t have tn: "tweet_number (last new) = Some n" by (simp add: tweet_number_def)
  let ?ids = "List.map_filter tweet_number items"
  have "last (List.map_filter tweet_number new) = n"
    using delivered(4) tn by (rule last_map_filter[where f = tweet_number])
  then have ln: "last (filter Q ?ids) = n"
    by (subst (asm) new) (simp only: map_filter_filter)
  have "n \<in> set (List.map_filter tweet_number new)"
    using \<open>last new \<in> set new\<close> tn by (force simp: List.map_filter_def)
  then have Qn: "Q n" unfolding new map_filter_filter by simp
  have le: "a \<le> n" if "a \<in> set ?ids" for a
  proof (cases "Q a")
    case True
    with that have "a \<in> set (filter Q ?ids)" by simp
    moreover have "sorted (filter Q ?ids)"
      using asc by (simp add: ids_ascending_def sorted_wrt_filter)
    ultimately show ?thesis using sorted_le_last ln by blast
  next
    case False
    with Qn Q show ?thesis by blast
  qed
  have "filter (\<lambda>it. case tweet_number it of None \<Rightarrow> False | Some a \<Rightarrow> n < a) items = []"
  proof -
    have "\<not> n < a" if "it \<in> set items" "tweet_number it = Some a" for it a
    proof -
      from that have "a \<in> set ?ids" by (force simp: List.map_filter_def)
      from le[OF this] show ?thesis by simp
    qed
    then show ?thesis by (auto simp: filter_empty_conv split: option.splits)
  qed
  with select_new_items_watermark[OF n, of items] lid id show ?thesis by simp
qed


lemma process_users_other:
  assumes "process_users E insts ch names us w = (Inr (us', out), w')" "v \<notin> set names"
  shows "us' v = us v"
  using assms
proof (induction names arbitrary: us w out)
  case Nil
  then show ?case by simp
next
  case (Cons u rest)
  from Cons.prems(1) obtain us1 out1 w1 out2 where
    p: "process_user E insts ch u us w = (Inr (us1, out1), w1)"
    and r: "process_users E insts ch rest us1 w1 = (Inr (us', out2), w')"
    by (auto split: prod.splits sum.splits)
  from Cons.prems(2) have "v \<noteq> u" "v \<notin> set rest" by auto
  with Cons.IH[OF r] process_user_other[OF p] show ?case by simp
qed

lemma process_users_settled:
  assumes "\<forall>u \<in> set names. \<forall>w. fst (fetch_latest_from_nitter (Request E) (urlopen E) (fromstring E) insts u w) = Inr (feed u)"
    and "\<forall>u \<in> set names. select_new_items (last_id_of us u) (feed u) = Inr []"
  shows "\<exists>out w'. process_users E insts ch names us w = (Inr (us, out), w') \<and> attempts out = []"
  using assms
proof (induction names arbitrary: w)
  case Nil
  then show ?case by simp
next
  case (Cons u rest)
  obtain r w1 where f: "fetch_latest_from_nitter (Request E) (urlopen E) (fromstring E) insts u w = (r, w1)"
    by (cases "fetch_latest_from_nitter (Request E) (urlopen E) (fromstring E) insts u w")
  with Cons.prems(1) have "r = Inr (feed u)" by (metis fst_conv list.set_intros(1))
  with f Cons.prems(2) have
    p: "process_user E insts ch u us w =
          (Inr (us, [if feed u = [] then Info_no_items u else Info_no_new u]), w1)"
    by (intro process_user_no_new) simp_all
  from Cons.prems have
    "\<exists>out w'. process_users E insts ch rest us w1 = (Inr (us, out), w') \<and> attempts out = []"
    by (intro Cons.IH) simp_all
  then obtain out2 w' where
    "process_users E insts ch rest us w1 = (Inr (us, out2), w')" "attempts out2 = []" by blast
  with p show ?case by simp
qed

lemma process_users_settles:
  assumes "\<forall>u \<in> set names. \<forall>w. fst (fetch_latest_from_nitter (Request E) (urlopen E) (fromstring E) insts u w) = Inr (feed u)"
    and "\<forall>u \<in> set names. ids_ascending (feed u)"
    and "process_users E insts ch names us w = (Inr (us', out), w')"
    and "all_confirmed out"
  shows "\<forall>u \<in> set names. select_new_items (last_id_of us' u) (feed u) = Inr []"
  using assms
proof (induction names arbitrary: us w out)
  case Nil
  then show ?case by simp
next
  case (Cons u rest)
  from Cons.prems(3) obtain us1 out1 w1 out2 where
    p: "process_user E insts ch u us w = (Inr (us1, out1), w1)"
    and r: "process_users E insts ch rest us1 w1 = (Inr (us', out2), w')"
    and out: "out = out1 @ out2"
    by (auto split: prod.splits sum.splits)
  from Cons.prems(4) out have ok: "all_confirmed out1" "all_confirmed out2"
    by (simp_all add: all_confirmed_append)
  have rest: "\<forall>v \<in> set rest. select_new_items (last_id_of us' v) (feed v) = Inr []"
    using Cons.prems(1,2) r ok(2) by (intro Cons.IH[where us = us1 and w = w1 and out = out2]) simp_all
  have "select_new_items (last_id_of us' u) (feed u) = Inr []"
  proof (cases "u \<in> set rest")
    case True
    with rest show ?thesis by blast
  next
    case False
    have "fst (fetch_latest_from_nitter (Request E) (urlopen E) (fromstring E) insts u w) = Inr (feed u)"
      using Cons.prems(1) by simp
    moreover have "ids_ascending (feed u)" using Cons.prems(2) by simp
    ultimately have "select_new_items (last_id_of us1 u) (feed u) = Inr []"
      using p ok(1) by (intro process_user_settles)
    moreover have "last_id_of us' u = last_id_of us1 u"
      using process_users_other[OF r False] by (rule last_id_of_other)
    ultimately show ?thesis by simp
  qed
  with rest show ?case by simp
qed

section \<open>Properties of the fetch\<close>

lemma fetch_takes_first:
  assumes "http_get R U (rss_url base u) w = (Inr (200, body), wn)" "body \<noteq> []"
    and "parse_rss_items F body = Inr items"
  shows "fetch_latest_from_nitter R U F (base # rest) u w = (Inr (sort_key pubDate items), wn)"
  using assms by simp

lemma fetch_parser_raises:
  assumes "http_get R U (rss_url base u) w = (Inr (200, body), wn)" "body \<noteq> []"
    and "parse_rss_items F body = Inl e"
  shows "fetch_latest_from_nitter R U F (base # rest) u w = (Inl e, wn)"
  using assms by simp

lemma fetch_skips_failed:
  assumes "http_get R U (rss_url base u) w = (Inr (code, body), wn)" "code \<noteq> 200 \<or> body = []"
  shows "fetch_latest_from_nitter R U F (base # rest) u w = fetch_latest_from_nitter R U F rest u wn"
  using assms by auto

lemma fetch_raises:
  assumes "http_get R U (rss_url base u) w = (Inl e, wn)"
  shows "fetch_latest_from_nitter R U F (base # rest) u w = (Inl e, wn)"
  using assms by simp

section \<open>Which failures are values\<close>

text \<open>
  The failures that the code turns into values. When the constructor accepts every URL,
  every request ends in a response that is read, an \<open>HTTPError\<close> whose body is read or a
  \<open>URLError\<close>, and the parser raises nothing but \<open>ParseError\<close>, then the fetch, the
  pushes and the delivery loop return.
\<close>

lemma handled_Inr_iff:
  "(\<exists>code body. handled oc = Inr (code, body)) \<longleftrightarrow>
   (\<exists>code body. oc = Returned code body \<or> oc = HTTPError code (Some body)) \<or> oc = URLError"
proof (cases oc)
  case (HTTPError code b)
  then show ?thesis by (cases b) simp_all
qed simp_all

lemma http_get_Inr:
  assumes "\<forall>url. R url" "\<forall>r w. \<exists>code body. handled (fst (U r w)) = Inr (code, body)"
  shows "\<exists>code body w'. http_get R U url w = (Inr (code, body), w')"
proof -
  obtain oc w' where u: "U (GET url) w = (oc, w')" by (cases "U (GET url) w")
  with assms(2) obtain code body where "handled oc = Inr (code, body)" by (metis fst_conv)
  with u assms(1) show ?thesis by (simp add: http_get_def)
qed

lemma http_post_json_Inr:
  assumes "\<forall>url. R url" "\<forall>r w. \<exists>code body. handled (fst (U r w)) = Inr (code, body)"
  shows "\<exists>code body w'. http_post_json R U url p w = (Inr (code, body), w')"
proof -
  obtain oc w' where u: "U (POST_JSON url p) w = (oc, w')" by (cases "U (POST_JSON url p) w")
  with assms(2) obtain code body where "handled oc = Inr (code, body)" by (metis fst_conv)
  with u assms(1) show ?thesis by (simp add: http_post_json_def)
qed

lemma http_post_form_Inr:
  assumes "\<forall>url. R url" "\<forall>r w. \<exists>code body. handled (fst (U r w)) = Inr (code, body)"
  shows "\<exists>code body w'. http_post_form R U url p w = (Inr (code, body), w')"
proof -
  obtain oc w' where u: "U (POST_FORM url p) w = (oc, w')" by (cases "U (POST_FORM url p) w")
  with assms(2) obtain code body where "handled oc = Inr (code, body)" by (metis fst_conv)
  with u assms(1) show ?thesis by (simp add: http_post_form_def)
qed

lemma parse_rss_items_Inr:
  assumes "\<forall>b e. F b \<noteq> ParserRaised e"
  shows "\<exists>items. parse_rss_items F body = Inr items"
  using assms[rule_format, of body]
  by (cases "F body") (auto simp: parse_rss_items_def Let_def split: option.splits)

lemma fetch_Inr:
  assumes "\<forall>url. R url" "\<forall>r w. \<exists>code body. handled (fst (U r w)) = Inr (code, body)"
    and "\<forall>b e. F b \<noteq> ParserRaised e"
  shows "\<exists>items w'. fetch_latest_from_nitter R U F insts u w = (Inr items, w')"
proof (induction insts arbitrary: w)
  case Nil
  then show ?case by simp
next
  case (Cons base insts)
  from http_get_Inr[OF assms(1,2)] obtain code body w1 where
    h: "http_get R U (rss_url base u) w = (Inr (code, body), w1)" by blast
  from parse_rss_items_Inr[OF assms(3)] obtain items where
    p: "parse_rss_items F body = Inr items" by blast
  show ?case
  proof (cases "code = 200 \<and> body \<noteq> []")
    case True
    with h p show ?thesis by simp
  next
    case False
    then have "code \<noteq> 200 \<or> body = []" by simp
    from fetch_skips_failed[OF h this] Cons.IH[of w1] show ?thesis by simp
  qed
qed

lemma push_wecom_Inr:
  assumes "\<forall>url. R url" "\<forall>r w. \<exists>code body. handled (fst (U r w)) = Inr (code, body)"
  shows "\<exists>ok w'. push_wecom R U L webhook msg w = (Inr ok, w')"
proof -
  from http_post_json_Inr[OF assms] obtain code body w1 where
    "http_post_json R U webhook \<lparr>msgtype = ''text'', content = take 4096 msg\<rparr> w = (Inr (code, body), w1)"
    by blast
  then show ?thesis by (auto simp: push_wecom_def split: option.splits)
qed

lemma push_serverchan_Inr:
  assumes "\<forall>url. R url" "\<forall>r w. \<exists>code body. handled (fst (U r w)) = Inr (code, body)"
  shows "\<exists>ok w'. push_serverchan R U L key ttl desp w = (Inr ok, w')"
proof -
  from http_post_form_Inr[OF assms] obtain code body w1 where
    "http_post_form R U (''https://sctapi.ftqq.com/'' @ key @ ''.send'')
       [(''title'', ttl), (''desp'', desp)] w = (Inr (code, body), w1)"
    by blast
  then show ?thesis by (auto simp: push_serverchan_def split: option.splits)
qed

lemma push_message_Inr:
  assumes "\<forall>url. Request E url"
    and "\<forall>r w. \<exists>code body. handled (fst (urlopen E r w)) = Inr (code, body)"
  shows "\<exists>ok warn w'. push_message E ch u msg x w = (Inr (ok, warn), w')"
proof -
  obtain ok1 w1 where
    "push_wecom (Request E) (urlopen E) (loads E) (the (wecom_webhook ch)) msg w = (Inr ok1, w1)"
    using push_wecom_Inr[OF assms] by blast
  moreover obtain ok2 w2 where
    "push_serverchan (Request E) (urlopen E) (loads E) (the (serverchan_key ch)) (''@'' @ u @ label_latest E)
       (msg @ newline @ newline @ x) w = (Inr ok2, w2)"
    using push_serverchan_Inr[OF assms] by blast
  ultimately show ?thesis by (auto simp: push_message_def)
qed

lemma deliver_items_Inr:
  assumes "\<forall>url. Request E url"
    and "\<forall>r w. \<exists>code body. handled (fst (urlopen E r w)) = Inr (code, body)"
  shows "\<exists>final out w'. deliver_items E ch u items latest w = (Inr (final, out), w')"
proof (induction items arbitrary: latest w)
  case Nil
  then show ?case by simp
next
  case (Cons it its)
  obtain msg x where fm: "format_message (simple_translate E) (label_original E) u it = (msg, x)"
    by (cases "format_message (simple_translate E) (label_original E) u it")
  from push_message_Inr[OF assms] obtain ok warn w1 where
    pm: "push_message E ch u msg x w = (Inr (ok, warn), w1)" by blast
  let ?tid = "extract_tweet_id (link it)"
  from Cons.IH obtain final out w2 where
    "deliver_items E ch u its (if ok \<and> truthy ?tid then ?tid else latest) w1 = (Inr (final, out), w2)"
    by blast
  with fm pm show ?case by (simp add: Let_def)
qed

lemma select_new_items_Inr:
  assumes "lo = None \<or> (\<exists>l b. lo = Some l \<and> py_int l = Some b)"
  shows "\<exists>new. select_new_items lo items = Inr new"
  using assms select_new_items_first_run select_new_items_watermark by blast

lemma process_user_select_raises:
  assumes "fetch_latest_from_nitter (Request E) (urlopen E) (fromstring E) insts u w = (Inr items, w1)"
    and "select_new_items (last_id_of us u) items = Inl e"
  shows "process_user E insts ch u us w = (Inl e, w1)"
proof -
  from assms(2) have "items \<noteq> []" by auto
  with assms show ?thesis by (simp add: process_user_def)
qed

text \<open>
  So the processing of an account returns a value when, besides, the account has no record
  in the state (or an empty one), or the \<open>last_id\<close> that line 316 reads from its record
  is the text of an integer.
\<close>

lemma process_user_returns:
  assumes "\<forall>url. Request E url"
    and "\<forall>r w. \<exists>code body. handled (fst (urlopen E r w)) = Inr (code, body)"
    and "\<forall>b e. fromstring E b \<noteq> ParserRaised e"
    and "last_id_of us u = None \<or> (\<exists>l b. last_id_of us u = Some l \<and> py_int l = Some b)"
  shows "\<exists>us' out w'. process_user E insts ch u us w = (Inr (us', out), w')"
proof -
  from fetch_Inr[OF assms(1,2,3)] obtain items w1 where
    f: "fetch_latest_from_nitter (Request E) (urlopen E) (fromstring E) insts u w = (Inr items, w1)"
    by blast
  from select_new_items_Inr[OF assms(4)] obtain new where
    s: "select_new_items (last_id_of us u) items = Inr new" by blast
  show ?thesis
  proof (cases "new = []")
    case True
    with process_user_no_new[OF f] s show ?thesis by blast
  next
    case False
    from deliver_items_Inr[OF assms(1,2)] obtain final out w2 where
      "deliver_items E ch u (sort_key pubDate new) (last_id_of us u) w1 = (Inr (final, out), w2)"
      by blast
    from process_user_delivered[OF f s False this] show ?thesis by blast
  qed
qed

section \<open>Properties of the saving of the checkpoint\<close>

lemma fold_write_chunks:
  "fold (\<lambda>step. step) (map (write_chunk tmp) cs) (f(tmp \<mapsto> c)) = f(tmp \<mapsto> c @ concat cs)"
  by (induction cs arbitrary: c) (simp_all add: write_chunk_def)

lemma run_steps_before_install:
  assumes "k \<le> Suc (length (chunks data))"
  shows "run_steps k (save_json_atomic_steps chunks path data) f =
           (if k = 0 then f else f(path @ ''.tmp'' \<mapsto> concat (take (k - 1) (chunks data))))"
proof (cases k)
  case 0
  then show ?thesis by (simp add: run_steps_def)
next
  case (Suc j)
  with assms have "j \<le> length (chunks data)" by simp
  then have "take k (save_json_atomic_steps chunks path data) =
      open_w (path @ ''.tmp'') # map (write_chunk (path @ ''.tmp'')) (take j (chunks data))"
    using Suc by (simp add: save_json_atomic_steps_def Let_def take_map)
  then show ?thesis
    using Suc by (simp add: run_steps_def open_w_def fold_write_chunks)
qed

lemma save_json_atomic_result:
  "save_json_atomic chunks path data f =
     (f(path @ ''.tmp'' := None))(path \<mapsto> concat (chunks data))"
proof -
  let ?tmp = "path @ ''.tmp''"
  have "fold (\<lambda>step. step) (save_json_atomic_steps chunks path data) f =
        os_replace ?tmp path (f(?tmp \<mapsto> concat (chunks data)))"
    by (simp add: save_json_atomic_steps_def Let_def open_w_def fold_write_chunks)
  then show ?thesis
    by (simp add: save_json_atomic_def run_steps_def Let_def os_replace_def)
qed

section \<open>The sample runs\<close>

lemma sample_ids:
  "extract_tweet_id ''/status/300'' = Some ''300''"
  "extract_tweet_id ''/status/200#m'' = Some ''200''"
  "extract_tweet_id ''/photo/7'' = None"
  "extract_tweet_id ''/status/100'' = Some ''100''"
  by (simp_all add: match_status_def is_digit_def is_word_def code_point_def)

lemma sample_ints:
  "py_int ''100'' = Some 100" "py_int ''200'' = Some 200" "py_int ''300'' = Some 300"
  by (simp_all add: py_int_def strip_with_def is_int_space_def is_digit_def digit_val_def
      code_point_def)

lemma sample_parse: "parse_rss_items (fromstring sample_ext) ''<rss>'' = Inr sample_feed"
  by (simp add: parse_rss_items_def sample_ext_def sample_root_def sample_item_def findtext_def
      or_empty_def strip_def strip_with_def is_space_def code_point_def sample_feed_def entry_def)

lemma sample_sorted:
  "sort_key pubDate sample_feed =
     [entry ''/status/100'' ''a'', entry ''/photo/7'' ''b'', entry ''/status/200#m'' ''c'',
      entry ''/status/300'' ''d'']"
  by (simp add: sample_feed_def entry_def)

lemma sample_fetch:
  "fetch_latest_from_nitter (Request sample_ext) (urlopen sample_ext) (fromstring sample_ext) [''http://m1/''] ''alice''
     (Returned 200 ''<rss>'' # script, log) =
   (Inr [entry ''/status/100'' ''a'', entry ''/photo/7'' ''b'', entry ''/status/200#m'' ''c'',
      entry ''/status/300'' ''d''], (script, log @ [GET ''http://m1/alice/rss'']))"
  using sample_parse sample_sorted
  by (simp add: http_get_def rss_url_def rstrip_slash_def sample_ext_def scripted_def
      known_url_type_def)

lemma sample_push_ok:
  "push_message sample_ext sample_channel u msg x (Returned 200 ''ok'' # script, log) =
     (Inr (True, []), (script, log @ [POST_JSON ''https://h/k'' \<lparr>msgtype = ''text'', content = take 4096 msg\<rparr>]))"
  by (simp add: push_message_def sample_channel_def truthy_def push_wecom_def http_post_json_def
      sample_ext_def scripted_def known_url_type_def)

lemma sample_push_fail:
  "push_message sample_ext sample_channel u msg x (Returned 500 [] # script, log) =
     (Inr (False, []), (script, log @ [POST_JSON ''https://h/k'' \<lparr>msgtype = ''text'', content = take 4096 msg\<rparr>]))"
  by (simp add: push_message_def sample_channel_def truthy_def push_wecom_def http_post_json_def
      sample_ext_def scripted_def known_url_type_def)

lemma sample_ext_sel:
  "simple_translate sample_ext = (\<lambda>s. s)" "label_original sample_ext = ''Original: ''"
  "label_latest sample_ext = '' latest''"
  by (simp_all add: sample_ext_def)

lemma sample_select_first:
  "select_new_items None [entry ''/status/100'' ''a'', entry ''/photo/7'' ''b'', entry ''/status/200#m'' ''c'',
      entry ''/status/300'' ''d''] = Inr [entry ''/status/100'' ''a'', entry ''/status/200#m'' ''c'',
      entry ''/status/300'' ''d'']"
  by (simp add: entry_def sample_ids del: extract_tweet_id.simps)

lemma sample_deliver:
  "deliver_items sample_ext sample_channel ''alice''
     [entry ''/status/100'' ''a'', entry ''/status/200#m'' ''c'', entry ''/status/300'' ''d''] None
     (Returned 200 ''ok'' # Returned 500 [] # Returned 200 ''ok'' # script, log) =
   (Inr (Some ''300'', [Sent ''alice'' ''100'', Fail ''alice'' ''200'', Sent ''alice'' ''300'']),
    (script, log @ sample_posts))"
  by (simp add: sample_push_ok sample_push_fail entry_def sample_ids format_message_def
      build_x_link_def or_empty_def truthy_def newline_def sample_ext_sel Let_def sample_posts_def
      del: extract_tweet_id.simps)

lemma sample_deliver_ok:
  "deliver_items sample_ext sample_channel ''alice''
     [entry ''/status/100'' ''a'', entry ''/status/200#m'' ''c'', entry ''/status/300'' ''d''] None
     (Returned 200 ''ok'' # Returned 200 ''ok'' # Returned 200 ''ok'' # script, log) =
   (Inr (Some ''300'', [Sent ''alice'' ''100'', Sent ''alice'' ''200'', Sent ''alice'' ''300'']),
    (script, log @ sample_posts))"
  by (simp add: sample_push_ok entry_def sample_ids format_message_def
      build_x_link_def or_empty_def truthy_def newline_def sample_ext_sel Let_def sample_posts_def
      del: extract_tweet_id.simps)

lemma sample_deliver_fail:
  "deliver_items sample_ext sample_channel ''alice''
     [entry ''/status/100'' ''a'', entry ''/status/200#m'' ''c'', entry ''/status/300'' ''d''] None
     (Returned 500 [] # Returned 500 [] # Returned 500 [] # script, log) =
   (Inr (None, [Fail ''alice'' ''100'', Fail ''alice'' ''200'', Fail ''alice'' ''300'']),
    (script, log @ sample_posts))"
  by (simp add: sample_push_fail entry_def sample_ids format_message_def
      build_x_link_def or_empty_def truthy_def newline_def sample_ext_sel Let_def sample_posts_def
      del: extract_tweet_id.simps)

text \<open>
  The three pushes of the sample run in which the second push fails, world by world: the
  script of the transport gets shorter and the record of the requests longer.
\<close>

lemma sample_push_items:
  "push_item sample_ext sample_channel ''alice'' (entry ''/status/100'' ''a'')
     ([Returned 200 ''ok'', Returned 500 [], Returned 200 ''ok''], [GET ''http://m1/alice/rss'']) =
   (Inr (True, []),
    ([Returned 500 [], Returned 200 ''ok''], GET ''http://m1/alice/rss'' # take 1 sample_posts))"
  "push_item sample_ext sample_channel ''alice'' (entry ''/status/200#m'' ''c'')
     ([Returned 500 [], Returned 200 ''ok''], GET ''http://m1/alice/rss'' # take 1 sample_posts) =
   (Inr (False, []), ([Returned 200 ''ok''], GET ''http://m1/alice/rss'' # take 2 sample_posts))"
  "push_item sample_ext sample_channel ''alice'' (entry ''/status/300'' ''d'')
     ([Returned 200 ''ok''], GET ''http://m1/alice/rss'' # take 2 sample_posts) =
   (Inr (True, []), ([], GET ''http://m1/alice/rss'' # sample_posts))"
  by (simp_all add: push_item_def sample_push_ok sample_push_fail entry_def sample_ids
      format_message_def build_x_link_def or_empty_def newline_def sample_ext_sel Let_def
      sample_posts_def del: extract_tweet_id.simps)

lemma sample_pushed:
  "pushed sample_ext sample_channel ''alice''
     [entry ''/status/100'' ''a'', entry ''/status/200#m'' ''c'', entry ''/status/300'' ''d'']
     [True, False, True]
     [([Returned 200 ''ok'', Returned 500 [], Returned 200 ''ok''], [GET ''http://m1/alice/rss'']),
      ([Returned 500 [], Returned 200 ''ok''], GET ''http://m1/alice/rss'' # take 1 sample_posts),
      ([Returned 200 ''ok''], GET ''http://m1/alice/rss'' # take 2 sample_posts),
      ([], GET ''http://m1/alice/rss'' # sample_posts)]"
proof -
  have 3: "pushed sample_ext sample_channel ''alice'' [entry ''/status/300'' ''d''] [True]
     [([Returned 200 ''ok''], GET ''http://m1/alice/rss'' # take 2 sample_posts),
      ([], GET ''http://m1/alice/rss'' # sample_posts)]"
    by (rule pushed_Cons[OF sample_push_items(3) pushed_Nil]) simp
  have 2: "pushed sample_ext sample_channel ''alice''
     [entry ''/status/200#m'' ''c'', entry ''/status/300'' ''d''] [False, True]
     [([Returned 500 [], Returned 200 ''ok''], GET ''http://m1/alice/rss'' # take 1 sample_posts),
      ([Returned 200 ''ok''], GET ''http://m1/alice/rss'' # take 2 sample_posts),
      ([], GET ''http://m1/alice/rss'' # sample_posts)]"
    by (rule pushed_Cons[OF sample_push_items(2) 3]) simp
  show ?thesis
    by (rule pushed_Cons[OF sample_push_items(1) 2]) simp
qed

lemma sample_confirmed:
  "confirmed [entry ''/status/100'' ''a'', entry ''/status/200#m'' ''c'', entry ''/status/300'' ''d'']
     [True, False, True] = [entry ''/status/100'' ''a'', entry ''/status/300'' ''d'']"
  by (simp add: confirmed_def)

lemma sample_sorted_new:
  "sort_key pubDate
     [entry ''/status/100'' ''a'', entry ''/status/200#m'' ''c'', entry ''/status/300'' ''d''] =
   [entry ''/status/100'' ''a'', entry ''/status/200#m'' ''c'', entry ''/status/300'' ''d'']"
  by (simp add: entry_def)

lemma sample_last_id_empty: "last_id_of Map.empty ''alice'' = None"
  by (simp add: last_id_of_def)

text \<open>
  A first run on the sample feed in which the second of the three pushes fails: the third
  entry is pushed all the same, and its identifier is the one stored.
\<close>

lemma sample_process_user:
  "process_user sample_ext [''http://m1/''] sample_channel ''alice'' Map.empty
     (Returned 200 ''<rss>'' # Returned 200 ''ok'' # Returned 500 [] # Returned 200 ''ok'' # script, log) =
   (Inr ([''alice'' \<mapsto> [(''last_id'', SStr ''300'')]],
         [Sent ''alice'' ''100'', Fail ''alice'' ''200'', Sent ''alice'' ''300'']),
    (script, (log @ [GET ''http://m1/alice/rss'']) @ sample_posts))"
proof -
  have "process_user sample_ext [''http://m1/''] sample_channel ''alice'' Map.empty
     (Returned 200 ''<rss>'' # Returned 200 ''ok'' # Returned 500 [] # Returned 200 ''ok'' # script, log) =
     (Inr (if truthy (Some ''300'')
           then [''alice'' \<mapsto> [(''last_id'', SStr (or_empty (Some ''300'')))]] else Map.empty,
           [Sent ''alice'' ''100'', Fail ''alice'' ''200'', Sent ''alice'' ''300'']),
      (script, (log @ [GET ''http://m1/alice/rss'']) @ sample_posts))"
  proof (rule process_user_delivered)
    show "fetch_latest_from_nitter (Request sample_ext) (urlopen sample_ext) (fromstring sample_ext) [''http://m1/''] ''alice''
       (Returned 200 ''<rss>'' # Returned 200 ''ok'' # Returned 500 [] # Returned 200 ''ok'' # script, log) =
       (Inr [entry ''/status/100'' ''a'', entry ''/photo/7'' ''b'', entry ''/status/200#m'' ''c'',
          entry ''/status/300'' ''d''],
        (Returned 200 ''ok'' # Returned 500 [] # Returned 200 ''ok'' # script, log @ [GET ''http://m1/alice/rss'']))"
      by (rule sample_fetch)
    show "select_new_items (last_id_of Map.empty ''alice'')
        [entry ''/status/100'' ''a'', entry ''/photo/7'' ''b'', entry ''/status/200#m'' ''c'',
          entry ''/status/300'' ''d''] =
        Inr [entry ''/status/100'' ''a'', entry ''/status/200#m'' ''c'', entry ''/status/300'' ''d'']"
      unfolding sample_last_id_empty by (rule sample_select_first)
    show "[entry ''/status/100'' ''a'', entry ''/status/200#m'' ''c'', entry ''/status/300'' ''d''] \<noteq> []"
      by simp
    show "deliver_items sample_ext sample_channel ''alice''
        (sort_key pubDate
          [entry ''/status/100'' ''a'', entry ''/status/200#m'' ''c'', entry ''/status/300'' ''d''])
        (last_id_of Map.empty ''alice'')
        (Returned 200 ''ok'' # Returned 500 [] # Returned 200 ''ok'' # script, log @ [GET ''http://m1/alice/rss'']) =
        (Inr (Some ''300'', [Sent ''alice'' ''100'', Fail ''alice'' ''200'', Sent ''alice'' ''300'']),
         (script, (log @ [GET ''http://m1/alice/rss'']) @ sample_posts))"
      unfolding sample_last_id_empty sample_sorted_new by (rule sample_deliver)
  qed
  then show ?thesis by (simp add: truthy_def or_empty_def)
qed

lemma sample_channel_of: "channel_of sample_config sample_environ = sample_channel"
  by (simp add: channel_of_def sample_config_def sample_environ_def sample_channel_def py_or_def
      truthy_def)

lemma sample_config_sel: "users_of sample_config = [''alice'']" "instances_of sample_config = [''http://m1/'']"
  by (simp_all add: users_of_def instances_of_def sample_config_def)

lemma sample_select_again:
  "select_new_items (Some ''300'') [entry ''/status/100'' ''a'', entry ''/photo/7'' ''b'',
      entry ''/status/200#m'' ''c'', entry ''/status/300'' ''d''] = Inr []"
  by (simp add: entry_def sample_ids sample_ints del: extract_tweet_id.simps)

lemma sample_users_empty:
  "(case st_users empty_state of None \<Rightarrow> Map.empty | Some m \<Rightarrow> m) = Map.empty"
  by (simp add: empty_state_def)

lemma sample_pass1:
  "run_once sample_ext sample_environ ''t1'' sample_config empty_state
     (Returned 200 ''<rss>'' # Returned 200 ''ok'' # Returned 500 [] # Returned 200 ''ok'' # script, log) =
   (Inr (sample_state,
         [Sent ''alice'' ''100'', Fail ''alice'' ''200'', Sent ''alice'' ''300'']),
    (script, (log @ [GET ''http://m1/alice/rss'']) @ sample_posts))"
proof -
  have "process_users sample_ext (instances_of sample_config)
      (channel_of sample_config sample_environ) (users_of sample_config)
      (case st_users empty_state of None \<Rightarrow> Map.empty | Some m \<Rightarrow> m)
      (Returned 200 ''<rss>'' # Returned 200 ''ok'' # Returned 500 [] # Returned 200 ''ok'' # script, log)
    = (Inr ([''alice'' \<mapsto> [(''last_id'', SStr ''300'')]],
         [Sent ''alice'' ''100'', Fail ''alice'' ''200'', Sent ''alice'' ''300'']),
       (script, (log @ [GET ''http://m1/alice/rss'']) @ sample_posts))"
    unfolding sample_channel_of sample_config_sel sample_users_empty
    by (rule process_users_single) (rule sample_process_user)
  from run_once_eq[OF this] show ?thesis
    by (simp add: sample_channel_of sample_channel_def truthy_def sample_state_def)
qed

lemma sample_pass2:
  "run_once sample_ext sample_environ ''t2'' sample_config sample_state
     (Returned 200 ''<rss>'' # script, log) =
   (Inr (sample_state\<lparr>updated_at := Some ''t2Z''\<rparr>, [Info_no_new ''alice'']),
    (script, log @ [GET ''http://m1/alice/rss'']))"
proof -
  let ?us = "[''alice'' \<mapsto> [(''last_id'', SStr ''300'')]]"
  have l: "last_id_of ?us ''alice'' = Some ''300''" by (simp add: last_id_of_def)
  have "process_user sample_ext [''http://m1/''] sample_channel ''alice'' ?us (Returned 200 ''<rss>'' # script, log)
    = (Inr (?us, [Info_no_new ''alice'']), (script, log @ [GET ''http://m1/alice/rss'']))"
    using process_user_no_new[OF sample_fetch, where us = ?us and ch = sample_channel]
      sample_select_again l
    by simp
  then have "process_users sample_ext (instances_of sample_config)
      (channel_of sample_config sample_environ) (users_of sample_config)
      (case st_users sample_state of None \<Rightarrow> Map.empty | Some m \<Rightarrow> m) (Returned 200 ''<rss>'' # script, log)
    = (Inr (?us, [Info_no_new ''alice'']), (script, log @ [GET ''http://m1/alice/rss'']))"
    by (simp add: sample_channel_of sample_config_sel sample_state_def)
  from run_once_eq[OF this] show ?thesis
    by (simp add: sample_channel_of sample_channel_def truthy_def sample_state_def)
qed


lemma sample_daemon:
  "daemon sample_ext sample_environ sample_config [''t1'', ''t2''] empty_state
     ([Returned 200 ''<rss>'', Returned 200 ''ok'', Returned 500 [], Returned 200 ''ok'',
       Returned 200 ''<rss>''], []) =
   ([(sample_state, [Sent ''alice'' ''100'', Fail ''alice'' ''200'', Sent ''alice'' ''300'']),
     (sample_state\<lparr>updated_at := Some ''t2Z''\<rparr>, [Info_no_new ''alice''])],
    ([], (GET ''http://m1/alice/rss'' # sample_posts) @ [GET ''http://m1/alice/rss'']))"
  by (simp add: sample_pass1 sample_pass2)

lemma sample_watermarks:
  "state_watermark empty_state ''alice'' = None"
  "state_watermark sample_state ''alice'' = Some 300"
  "state_watermark (sample_state\<lparr>updated_at := Some ''t2Z''\<rparr>) ''alice'' = Some 300"
  by (simp_all add: state_watermark_def empty_state_def sample_state_def watermark_def
      last_id_of_def sample_ints)

lemma steady_ext_sel:
  "Request steady_ext = known_url_type" "urlopen steady_ext = steady" "fromstring steady_ext = fromstring sample_ext"
  "loads steady_ext = loads sample_ext"
  "simple_translate steady_ext = (\<lambda>s. s)" "label_original steady_ext = ''Original: ''"
  "label_latest steady_ext = '' latest''"
  by (simp_all add: steady_ext_def)

lemma steady_fetch:
  "fetch_latest_from_nitter (Request steady_ext) (urlopen steady_ext) (fromstring steady_ext) [''http://m1/''] ''alice'' log =
   (Inr [entry ''/status/100'' ''a'', entry ''/photo/7'' ''b'', entry ''/status/200#m'' ''c'',
      entry ''/status/300'' ''d''], log @ [GET ''http://m1/alice/rss''])"
  using sample_parse sample_sorted
  by (simp add: http_get_def rss_url_def rstrip_slash_def steady_ext_sel steady_def
      known_url_type_def)

lemma steady_push:
  "push_message steady_ext sample_channel u msg x log =
     (Inr (True, []), log @ [POST_JSON ''https://h/k'' \<lparr>msgtype = ''text'', content = take 4096 msg\<rparr>])"
  by (simp add: push_message_def sample_channel_def truthy_def push_wecom_def http_post_json_def
      steady_ext_sel sample_ext_def steady_def known_url_type_def)

lemma steady_deliver:
  "deliver_items steady_ext sample_channel ''alice''
     [entry ''/status/100'' ''a'', entry ''/status/200#m'' ''c'', entry ''/status/300'' ''d''] None log =
   (Inr (Some ''300'', [Sent ''alice'' ''100'', Sent ''alice'' ''200'', Sent ''alice'' ''300'']),
    log @ sample_posts)"
  by (simp add: steady_push entry_def sample_ids format_message_def
      build_x_link_def or_empty_def truthy_def newline_def steady_ext_sel Let_def sample_posts_def
      del: extract_tweet_id.simps)

lemma steady_process_user:
  "process_user steady_ext [''http://m1/''] sample_channel ''alice'' Map.empty log =
   (Inr ([''alice'' \<mapsto> [(''last_id'', SStr ''300'')]],
         [Sent ''alice'' ''100'', Sent ''alice'' ''200'', Sent ''alice'' ''300'']),
    (log @ [GET ''http://m1/alice/rss'']) @ sample_posts)"
proof -
  have "process_user steady_ext [''http://m1/''] sample_channel ''alice'' Map.empty log =
     (Inr (if truthy (Some ''300'')
           then [''alice'' \<mapsto> [(''last_id'', SStr (or_empty (Some ''300'')))]] else Map.empty,
           [Sent ''alice'' ''100'', Sent ''alice'' ''200'', Sent ''alice'' ''300'']),
      (log @ [GET ''http://m1/alice/rss'']) @ sample_posts)"
  proof (rule process_user_delivered)
    show "fetch_latest_from_nitter (Request steady_ext) (urlopen steady_ext) (fromstring steady_ext) [''http://m1/''] ''alice'' log =
       (Inr [entry ''/status/100'' ''a'', entry ''/photo/7'' ''b'', entry ''/status/200#m'' ''c'',
          entry ''/status/300'' ''d''], log @ [GET ''http://m1/alice/rss''])"
      by (rule steady_fetch)
    show "select_new_items (last_id_of Map.empty ''alice'')
        [entry ''/status/100'' ''a'', entry ''/photo/7'' ''b'', entry ''/status/200#m'' ''c'',
          entry ''/status/300'' ''d''] =
        Inr [entry ''/status/100'' ''a'', entry ''/status/200#m'' ''c'', entry ''/status/300'' ''d'']"
      unfolding sample_last_id_empty by (rule sample_select_first)
    show "[entry ''/status/100'' ''a'', entry ''/status/200#m'' ''c'', entry ''/status/300'' ''d''] \<noteq> []"
      by simp
    show "deliver_items steady_ext sample_channel ''alice''
        (sort_key pubDate
          [entry ''/status/100'' ''a'', entry ''/status/200#m'' ''c'', entry ''/status/300'' ''d''])
        (last_id_of Map.empty ''alice'') (log @ [GET ''http://m1/alice/rss'']) =
        (Inr (Some ''300'', [Sent ''alice'' ''100'', Sent ''alice'' ''200'', Sent ''alice'' ''300'']),
         (log @ [GET ''http://m1/alice/rss'']) @ sample_posts)"
      unfolding sample_last_id_empty sample_sorted_new by (rule steady_deliver)
  qed
  then show ?thesis by (simp add: truthy_def or_empty_def)
qed

lemma steady_pass1:
  "run_once steady_ext sample_environ ''t1'' sample_config empty_state [] =
   (Inr (sample_state, [Sent ''alice'' ''100'', Sent ''alice'' ''200'', Sent ''alice'' ''300'']),
    GET ''http://m1/alice/rss'' # sample_posts)"
proof -
  have "process_users steady_ext (instances_of sample_config)
      (channel_of sample_config sample_environ) (users_of sample_config)
      (case st_users empty_state of None \<Rightarrow> Map.empty | Some m \<Rightarrow> m) []
    = (Inr ([''alice'' \<mapsto> [(''last_id'', SStr ''300'')]],
         [Sent ''alice'' ''100'', Sent ''alice'' ''200'', Sent ''alice'' ''300'']),
       ([] @ [GET ''http://m1/alice/rss'']) @ sample_posts)"
    unfolding sample_channel_of sample_config_sel sample_users_empty
    by (rule process_users_single) (rule steady_process_user)
  from run_once_eq[OF this] show ?thesis
    by (simp add: sample_channel_of sample_channel_def truthy_def sample_state_def)
qed

lemma sample_ids_ascending:
  "ids_ascending [entry ''/status/100'' ''a'', entry ''/photo/7'' ''b'', entry ''/status/200#m'' ''c'',
      entry ''/status/300'' ''d'']"
  by (simp add: ids_ascending_def List.map_filter_simps tweet_number_def entry_def sample_ids
      sample_ints del: extract_tweet_id.simps)

lemma sample_process_user_fail:
  "process_user sample_ext [''http://m1/''] sample_channel ''alice'' Map.empty
     (Returned 200 ''<rss>'' # Returned 500 [] # Returned 500 [] # Returned 500 [] # script, log) =
   (Inr (Map.empty, [Fail ''alice'' ''100'', Fail ''alice'' ''200'', Fail ''alice'' ''300'']),
    (script, (log @ [GET ''http://m1/alice/rss'']) @ sample_posts))"
proof -
  have "process_user sample_ext [''http://m1/''] sample_channel ''alice'' Map.empty
     (Returned 200 ''<rss>'' # Returned 500 [] # Returned 500 [] # Returned 500 [] # script, log) =
     (Inr (if truthy None
           then [''alice'' \<mapsto> [(''last_id'', SStr (or_empty None))]] else Map.empty,
           [Fail ''alice'' ''100'', Fail ''alice'' ''200'', Fail ''alice'' ''300'']),
      (script, (log @ [GET ''http://m1/alice/rss'']) @ sample_posts))"
  proof (rule process_user_delivered)
    show "fetch_latest_from_nitter (Request sample_ext) (urlopen sample_ext) (fromstring sample_ext) [''http://m1/''] ''alice''
       (Returned 200 ''<rss>'' # Returned 500 [] # Returned 500 [] # Returned 500 [] # script, log) =
       (Inr [entry ''/status/100'' ''a'', entry ''/photo/7'' ''b'', entry ''/status/200#m'' ''c'',
          entry ''/status/300'' ''d''],
        (Returned 500 [] # Returned 500 [] # Returned 500 [] # script, log @ [GET ''http://m1/alice/rss'']))"
      by (rule sample_fetch)
    show "select_new_items (last_id_of Map.empty ''alice'')
        [entry ''/status/100'' ''a'', entry ''/photo/7'' ''b'', entry ''/status/200#m'' ''c'',
          entry ''/status/300'' ''d''] =
        Inr [entry ''/status/100'' ''a'', entry ''/status/200#m'' ''c'', entry ''/status/300'' ''d'']"
      unfolding sample_last_id_empty by (rule sample_select_first)
    show "[entry ''/status/100'' ''a'', entry ''/status/200#m'' ''c'', entry ''/status/300'' ''d''] \<noteq> []"
      by simp
    show "deliver_items sample_ext sample_channel ''alice''
        (sort_key pubDate
          [entry ''/status/100'' ''a'', entry ''/status/200#m'' ''c'', entry ''/status/300'' ''d''])
        (last_id_of Map.empty ''alice'')
        (Returned 500 [] # Returned 500 [] # Returned 500 [] # script, log @ [GET ''http://m1/alice/rss'']) =
        (Inr (None, [Fail ''alice'' ''100'', Fail ''alice'' ''200'', Fail ''alice'' ''300'']),
         (script, (log @ [GET ''http://m1/alice/rss'']) @ sample_posts))"
      unfolding sample_last_id_empty sample_sorted_new by (rule sample_deliver_fail)
  qed
  then show ?thesis by (simp add: truthy_def)
qed

lemma sample_process_user_ok:
  "process_user sample_ext [''http://m1/''] sample_channel ''alice'' Map.empty
     (Returned 200 ''<rss>'' # Returned 200 ''ok'' # Returned 200 ''ok'' # Returned 200 ''ok'' # script, log) =
   (Inr ([''alice'' \<mapsto> [(''last_id'', SStr ''300'')]],
         [Sent ''alice'' ''100'', Sent ''alice'' ''200'', Sent ''alice'' ''300'']),
    (script, (log @ [GET ''http://m1/alice/rss'']) @ sample_posts))"
proof -
  have "process_user sample_ext [''http://m1/''] sample_channel ''alice'' Map.empty
     (Returned 200 ''<rss>'' # Returned 200 ''ok'' # Returned 200 ''ok'' # Returned 200 ''ok'' # script, log) =
     (Inr (if truthy (Some ''300'')
           then [''alice'' \<mapsto> [(''last_id'', SStr (or_empty (Some ''300'')))]] else Map.empty,
           [Sent ''alice'' ''100'', Sent ''alice'' ''200'', Sent ''alice'' ''300'']),
      (script, (log @ [GET ''http://m1/alice/rss'']) @ sample_posts))"
  proof (rule process_user_delivered)
    show "fetch_latest_from_nitter (Request sample_ext) (urlopen sample_ext) (fromstring sample_ext) [''http://m1/''] ''alice''
       (Returned 200 ''<rss>'' # Returned 200 ''ok'' # Returned 200 ''ok'' # Returned 200 ''ok'' # script, log) =
       (Inr [entry ''/status/100'' ''a'', entry ''/photo/7'' ''b'', entry ''/status/200#m'' ''c'',
          entry ''/status/300'' ''d''],
        (Returned 200 ''ok'' # Returned 200 ''ok'' # Returned 200 ''ok'' # script, log @ [GET ''http://m1/alice/rss'']))"
      by (rule sample_fetch)
    show "select_new_items (last_id_of Map.empty ''alice'')
        [entry ''/status/100'' ''a'', entry ''/photo/7'' ''b'', entry ''/status/200#m'' ''c'',
          entry ''/status/300'' ''d''] =
        Inr [entry ''/status/100'' ''a'', entry ''/status/200#m'' ''c'', entry ''/status/300'' ''d'']"
      unfolding sample_last_id_empty by (rule sample_select_first)
    show "[entry ''/status/100'' ''a'', entry ''/status/200#m'' ''c'', entry ''/status/300'' ''d''] \<noteq> []"
      by simp
    show "deliver_items sample_ext sample_channel ''alice''
        (sort_key pubDate
          [entry ''/status/100'' ''a'', entry ''/status/200#m'' ''c'', entry ''/status/300'' ''d''])
        (last_id_of Map.empty ''alice'')
        (Returned 200 ''ok'' # Returned 200 ''ok'' # Returned 200 ''ok'' # script, log @ [GET ''http://m1/alice/rss'']) =
        (Inr (Some ''300'', [Sent ''alice'' ''100'', Sent ''alice'' ''200'', Sent ''alice'' ''300'']),
         (script, (log @ [GET ''http://m1/alice/rss'']) @ sample_posts))"
      unfolding sample_last_id_empty sample_sorted_new by (rule sample_deliver_ok)
  qed
  then show ?thesis by (simp add: truthy_def or_empty_def)
qed

lemma sample_loads:
  "loads sample_ext ''ok'' = Some (JObj [(''errcode'', JInt 0), (''errmsg'', JStr ''ok'')])"
  "loads sample_ext ''sc'' = Some (JObj [(''code'', JInt 0), (''message'', JStr [])])"
  by (simp_all add: sample_ext_def)

lemma sample_null_last_id:
  "last_id_of [''alice'' \<mapsto> [(''last_id'', SNull)]] ''alice'' = Some ''None''"
  by (simp add: last_id_of_def)

lemma sample_missing_last_id:
  "last_id_of [''alice'' \<mapsto> [(''note'', SStr ''x'')]] ''alice'' = Some ''None''"
  by (simp add: last_id_of_def)

lemma sample_select_raises:
  "select_new_items (Some ''None'') [entry ''/status/100'' ''a'', entry ''/photo/7'' ''b'',
      entry ''/status/200#m'' ''c'', entry ''/status/300'' ''d''] = Inl ValueError"
proof -
  have "py_int ''None'' = None"
    by (simp add: py_int_def strip_with_def is_int_space_def is_digit_def code_point_def)
  then show ?thesis
    by (simp add: entry_def sample_ids sample_ints del: extract_tweet_id.simps)
qed

lemma sample_urls:
  "rss_url ''http://m1/'' ''alice'' = ''http://m1/alice/rss''" "rss_url ''http://m2'' ''alice'' = ''http://m2/alice/rss''"
  "rss_url ''http://m3'' ''alice'' = ''http://m3/alice/rss''"
  by (simp_all add: rss_url_def rstrip_slash_def)

text \<open>
  Failover as the specification describes it, when the failure of the first mirror reaches
  the program as a \<open>URLError\<close>: the second mirror's document is taken and the third
  mirror is never asked.
\<close>

lemma sample_failover:
  "fetch_latest_from_nitter (Request sample_ext) (urlopen sample_ext) (fromstring sample_ext) [''http://m1/'', ''http://m2'', ''http://m3'']
     ''alice'' ([URLError, Returned 200 ''<rss>''], []) =
   (Inr [entry ''/status/100'' ''a'', entry ''/photo/7'' ''b'', entry ''/status/200#m'' ''c'',
      entry ''/status/300'' ''d''], ([], [GET ''http://m1/alice/rss'', GET ''http://m2/alice/rss'']))"
proof -
  have u: "urlopen sample_ext = scripted" "Request sample_ext = known_url_type"
    by (simp_all add: sample_ext_def)
  have 1: "http_get known_url_type scripted (rss_url ''http://m1/'' ''alice'') ([URLError, Returned 200 ''<rss>''], []) =
      (Inr (0, []), ([Returned 200 ''<rss>''], [GET ''http://m1/alice/rss'']))"
    by (simp add: http_get_def scripted_def sample_urls known_url_type_def)
  have 2: "http_get known_url_type scripted (rss_url ''http://m2'' ''alice'') ([Returned 200 ''<rss>''], [GET ''http://m1/alice/rss'']) =
      (Inr (200, ''<rss>''), ([], [GET ''http://m1/alice/rss'', GET ''http://m2/alice/rss'']))"
    by (simp add: http_get_def scripted_def sample_urls known_url_type_def)
  have "fetch_latest_from_nitter (Request sample_ext) (urlopen sample_ext) (fromstring sample_ext) [''http://m1/'', ''http://m2'', ''http://m3'']
     ''alice'' ([URLError, Returned 200 ''<rss>''], []) =
     fetch_latest_from_nitter known_url_type scripted (fromstring sample_ext) [''http://m2'', ''http://m3'']
     ''alice'' ([Returned 200 ''<rss>''], [GET ''http://m1/alice/rss''])"
    unfolding u by (rule fetch_skips_failed[OF 1]) simp
  also have "\<dots> = (Inr (sort_key pubDate sample_feed),
      ([], [GET ''http://m1/alice/rss'', GET ''http://m2/alice/rss'']))"
    by (rule fetch_takes_first[OF 2 _ sample_parse]) simp
  also have "\<dots> = (Inr [entry ''/status/100'' ''a'', entry ''/photo/7'' ''b'',
      entry ''/status/200#m'' ''c'', entry ''/status/300'' ''d''],
      ([], [GET ''http://m1/alice/rss'', GET ''http://m2/alice/rss'']))"
    by (simp only: sample_sorted)
  finally show ?thesis .
qed

lemma dated_parse:
  "parse_rss_items (fromstring sample_ext) ''<dated>'' =
     Inr [entry ''/status/200'' ''Fri, 10 Nov 2023 10:00:00 GMT'',
          entry ''/status/100'' ''Mon, 06 Nov 2023 10:00:00 GMT'']"
  by (simp add: parse_rss_items_def sample_ext_def dated_root_def sample_item_def findtext_def
      or_empty_def strip_def strip_with_def is_space_def code_point_def entry_def)

lemma dated_sorted:
  "sort_key pubDate [entry ''/status/200'' ''Fri, 10 Nov 2023 10:00:00 GMT'',
      entry ''/status/100'' ''Mon, 06 Nov 2023 10:00:00 GMT''] =
   [entry ''/status/200'' ''Fri, 10 Nov 2023 10:00:00 GMT'',
      entry ''/status/100'' ''Mon, 06 Nov 2023 10:00:00 GMT'']"
  by (simp add: entry_def)

lemma dated_ids:
  "extract_tweet_id ''/status/200'' = Some ''200''"
  by (simp add: match_status_def is_digit_def is_word_def code_point_def)

lemma dated_fetch:
  "fetch_latest_from_nitter (Request sample_ext) (urlopen sample_ext) (fromstring sample_ext) [''http://m1/''] ''alice''
     (Returned 200 ''<dated>'' # script, log) =
   (Inr [entry ''/status/200'' ''Fri, 10 Nov 2023 10:00:00 GMT'',
         entry ''/status/100'' ''Mon, 06 Nov 2023 10:00:00 GMT''],
    (script, log @ [GET ''http://m1/alice/rss'']))"
proof -
  have u: "urlopen sample_ext = scripted" "Request sample_ext = known_url_type"
    by (simp_all add: sample_ext_def)
  have h: "http_get known_url_type scripted (rss_url ''http://m1/'' ''alice'')
      (Returned 200 ''<dated>'' # script, log) =
      (Inr (200, ''<dated>''), (script, log @ [GET ''http://m1/alice/rss'']))"
    by (simp add: http_get_def scripted_def sample_urls known_url_type_def)
  have "fetch_latest_from_nitter (Request sample_ext) (urlopen sample_ext) (fromstring sample_ext)
     [''http://m1/''] ''alice'' (Returned 200 ''<dated>'' # script, log) =
     (Inr (sort_key pubDate [entry ''/status/200'' ''Fri, 10 Nov 2023 10:00:00 GMT'',
                             entry ''/status/100'' ''Mon, 06 Nov 2023 10:00:00 GMT'']),
      (script, log @ [GET ''http://m1/alice/rss'']))"
    unfolding u by (rule fetch_takes_first[OF h _ dated_parse]) simp
  then show ?thesis by (simp only: dated_sorted)
qed

text \<open>
  What the order by date string leads to. On a first run both entries of the dated feed are
  pushed, the newer one first, and the identifier stored is the older one, 100; the next
  pass over the same feed pushes the entry 200 a second time.
\<close>

lemma dated_feed_pushed_twice:
  "map snd (fst (daemon sample_ext sample_environ sample_config [''t1'', ''t2''] empty_state
     ([Returned 200 ''<dated>'', Returned 200 ''ok'', Returned 200 ''ok'',
       Returned 200 ''<dated>'', Returned 200 ''ok''], []))) =
   [[Sent ''alice'' ''200'', Sent ''alice'' ''100''], [Sent ''alice'' ''200'']]"
proof -
  let ?e2 = "entry ''/status/200'' ''Fri, 10 Nov 2023 10:00:00 GMT''"
  let ?e1 = "entry ''/status/100'' ''Mon, 06 Nov 2023 10:00:00 GMT''"
  have c: "truthy (wecom_webhook (channel_of sample_config sample_environ))"
    "method_name (channel_of sample_config sample_environ) = ''wecom''"
    by (simp_all add: sample_channel_of sample_channel_def truthy_def)
  have s1: "select_new_items (last_id_of Map.empty ''alice'') [?e2, ?e1] = Inr [?e2, ?e1]"
    by (simp add: sample_last_id_empty entry_def dated_ids sample_ids del: extract_tweet_id.simps)
  have s2: "select_new_items (last_id_of [''alice'' \<mapsto> [(''last_id'', SStr ''100'')]] ''alice'')
      [?e2, ?e1] = Inr [?e2]"
    by (simp add: last_id_of_def entry_def dated_ids sample_ids sample_ints
        del: extract_tweet_id.simps)
  have srt: "sort_key pubDate [?e2] = [?e2]" by simp
  have d1: "\<exists>wn. deliver_items sample_ext sample_channel ''alice'' (sort_key pubDate [?e2, ?e1])
      (last_id_of Map.empty ''alice'') (Returned 200 ''ok'' # Returned 200 ''ok'' # script, log) =
      (Inr (Some ''100'', [Sent ''alice'' ''200'', Sent ''alice'' ''100'']), (script, wn))"
    for script log
    unfolding dated_sorted sample_last_id_empty
    by (simp add: sample_push_ok entry_def dated_ids sample_ids truthy_def or_empty_def
        split: prod.splits del: extract_tweet_id.simps)
  have d2: "\<exists>wn. deliver_items sample_ext sample_channel ''alice'' (sort_key pubDate [?e2])
      (last_id_of [''alice'' \<mapsto> [(''last_id'', SStr ''100'')]] ''alice'')
      (Returned 200 ''ok'' # script, log) =
      (Inr (Some ''200'', [Sent ''alice'' ''200'']), (script, wn))"
    for script log
    unfolding srt
    by (simp add: sample_push_ok entry_def dated_ids truthy_def or_empty_def
        split: prod.splits del: extract_tweet_id.simps)
  have p1: "\<exists>wn. run_once sample_ext sample_environ ''t1'' sample_config empty_state
     (Returned 200 ''<dated>'' # Returned 200 ''ok'' # Returned 200 ''ok'' # script, []) =
     (Inr (\<lparr>st_users = Some [''alice'' \<mapsto> [(''last_id'', SStr ''100'')]], updated_at = Some ''t1Z''\<rparr>,
        [Sent ''alice'' ''200'', Sent ''alice'' ''100'']), (script, wn))" for script
  proof -
    from d1 obtain wn where d: "deliver_items sample_ext sample_channel ''alice''
        (sort_key pubDate [?e2, ?e1]) (last_id_of Map.empty ''alice'')
        (Returned 200 ''ok'' # Returned 200 ''ok'' # script, [] @ [GET ''http://m1/alice/rss'']) =
        (Inr (Some ''100'', [Sent ''alice'' ''200'', Sent ''alice'' ''100'']), (script, wn))"
      by blast
    have "process_users sample_ext (instances_of sample_config)
        (channel_of sample_config sample_environ) (users_of sample_config)
        (case st_users empty_state of None \<Rightarrow> Map.empty | Some m \<Rightarrow> m)
        (Returned 200 ''<dated>'' # Returned 200 ''ok'' # Returned 200 ''ok'' # script, [])
      = (Inr ([''alice'' \<mapsto> [(''last_id'', SStr ''100'')]],
           [Sent ''alice'' ''200'', Sent ''alice'' ''100'']), (script, wn))"
      using process_users_single[OF process_user_delivered[OF dated_fetch s1 _ d]]
      by (simp add: sample_channel_of sample_config_sel sample_users_empty truthy_def or_empty_def)
    from run_once_eq[OF this c] show ?thesis by simp
  qed
  have p2: "\<exists>wn. run_once sample_ext sample_environ ''t2'' sample_config
       \<lparr>st_users = Some [''alice'' \<mapsto> [(''last_id'', SStr ''100'')]], updated_at = Some ''t1Z''\<rparr>
     (Returned 200 ''<dated>'' # Returned 200 ''ok'' # script, log) =
     (Inr (\<lparr>st_users = Some [''alice'' \<mapsto> [(''last_id'', SStr ''200'')]], updated_at = Some ''t2Z''\<rparr>,
        [Sent ''alice'' ''200'']), (script, wn))" for script log
  proof -
    from d2 obtain wn where d: "deliver_items sample_ext sample_channel ''alice''
        (sort_key pubDate [?e2]) (last_id_of [''alice'' \<mapsto> [(''last_id'', SStr ''100'')]] ''alice'')
        (Returned 200 ''ok'' # script, log @ [GET ''http://m1/alice/rss'']) =
        (Inr (Some ''200'', [Sent ''alice'' ''200'']), (script, wn))"
      by blast
    have "process_users sample_ext (instances_of sample_config)
        (channel_of sample_config sample_environ) (users_of sample_config)
        (case st_users \<lparr>st_users = Some [''alice'' \<mapsto> [(''last_id'', SStr ''100'')]],
                         updated_at = Some ''t1Z''\<rparr> of None \<Rightarrow> Map.empty | Some m \<Rightarrow> m)
        (Returned 200 ''<dated>'' # Returned 200 ''ok'' # script, log)
      = (Inr ([''alice'' \<mapsto> [(''last_id'', SStr ''200'')]], [Sent ''alice'' ''200'']), (script, wn))"
      using process_users_single[OF process_user_delivered[OF dated_fetch s2 _ d]]
      by (simp add: sample_channel_of sample_config_sel truthy_def or_empty_def)
    from run_once_eq[OF this c] show ?thesis by simp
  qed
  from p1[of "[Returned 200 ''<dated>'', Returned 200 ''ok'']"] obtain w1 where
    r1: "run_once sample_ext sample_environ ''t1'' sample_config empty_state
     ([Returned 200 ''<dated>'', Returned 200 ''ok'', Returned 200 ''ok'',
       Returned 200 ''<dated>'', Returned 200 ''ok''], []) =
     (Inr (\<lparr>st_users = Some [''alice'' \<mapsto> [(''last_id'', SStr ''100'')]], updated_at = Some ''t1Z''\<rparr>,
        [Sent ''alice'' ''200'', Sent ''alice'' ''100'']),
      ([Returned 200 ''<dated>'', Returned 200 ''ok''], w1))"
    by auto
  from p2[of "[]" w1] obtain w2 where
    r2: "run_once sample_ext sample_environ ''t2'' sample_config
       \<lparr>st_users = Some [''alice'' \<mapsto> [(''last_id'', SStr ''100'')]], updated_at = Some ''t1Z''\<rparr>
     ([Returned 200 ''<dated>'', Returned 200 ''ok''], w1) =
     (Inr (\<lparr>st_users = Some [''alice'' \<mapsto> [(''last_id'', SStr ''200'')]], updated_at = Some ''t2Z''\<rparr>,
        [Sent ''alice'' ''200'']), ([], w2))"
    by auto
  show ?thesis by (simp add: r1 r2)
qed

text \<open>
  Other ways in which an exception leaves the processing of an account: an instance
  without a scheme, for which the constructor of the request raises before anything is
  asked; a document that declares a multi-byte encoding, for which the parser raises
  \<open>ValueError\<close>; an \<open>HTTPError\<close> whose body cannot be read; and a push that ends in
  an exception of another class than \<open>HTTPError\<close> and \<open>URLError\<close>.
\<close>

lemma sample_request_refused:
  "process_user sample_ext [''m1/''] sample_channel ''alice'' Map.empty
     ([Returned 200 ''<rss>''], []) =
   (Inl ValueError, ([Returned 200 ''<rss>''], []))"
  by (simp add: process_user_def http_get_def rss_url_def rstrip_slash_def sample_ext_def
      known_url_type_def)

lemma sample_parser_raises:
  "process_user sample_ext [''http://m1/''] sample_channel ''alice'' Map.empty
     ([Returned 200 ''<sjis>''], []) =
   (Inl ValueError, ([], [GET ''http://m1/alice/rss'']))"
  by (simp add: process_user_def http_get_def rss_url_def rstrip_slash_def sample_ext_def
      known_url_type_def scripted_def parse_rss_items_def)

lemma sample_unreadable_error:
  "process_user sample_ext [''http://m1/''] sample_channel ''alice'' Map.empty
     ([HTTPError 503 None], []) =
   (Inl OtherError, ([], [GET ''http://m1/alice/rss'']))"
  by (simp add: process_user_def http_get_def rss_url_def rstrip_slash_def sample_ext_def
      known_url_type_def scripted_def)

lemma sample_push_raises:
  "push_wecom known_url_type scripted (loads sample_ext) ''https://h/k'' ''hi'' ([Raised], []) =
     (Inl OtherError, ([], [POST_JSON ''https://h/k'' \<lparr>msgtype = ''text'', content = ''hi''\<rparr>]))"
  "push_wecom known_url_type scripted (loads sample_ext) ''https://h/k'' ''hi''
     ([HTTPError 502 None], []) =
     (Inl OtherError, ([], [POST_JSON ''https://h/k'' \<lparr>msgtype = ''text'', content = ''hi''\<rparr>]))"
  "push_wecom known_url_type scripted (loads sample_ext) ''hook'' ''hi'' ([Returned 200 ''ok''], []) =
     (Inl ValueError, ([Returned 200 ''ok''], []))"
  by (simp_all add: push_wecom_def http_post_json_def scripted_def known_url_type_def)

section \<open>The claims\<close>

text \<open>
  C1 (as the code has it). The delivery loop of an account has no early exit. In a pass
  that returns, every entry that the filter kept is pushed exactly once, one after the
  other, whatever the results of the earlier pushes: \<open>vis\<close> lists these entries in the
  order of the pushes, \<open>oks\<close> the results of the pushes and \<open>ws\<close> the worlds, from the
  one after the fetch to the one in which the processing of the account ends. The
  \<open>last_id\<close> stored afterwards is the identifier of the last entry, in the order of the
  pushes, whose push returned true; when no push returned true it is the \<open>last_id\<close>
  stored before. The lines \<open>[sent]\<close> that the processing prints are those of the entries
  whose push returned true, in the order of the pushes. The push of an entry is the step of
  lines 334 to 342: with no channel configured it makes no request and its result is false.
\<close>

theorem delivery_attempts_every_entry:
  assumes "fetch_latest_from_nitter (Request E) (urlopen E) (fromstring E) insts u w = (Inr items, w1)"
    and "select_new_items (last_id_of us u) items = Inr new"
    and "process_user E insts ch u us w = (Inr (us', out), wn)"
  shows "\<exists>vis oks ws.
           mset vis = mset new \<and> pushed E ch u vis oks ws \<and> hd ws = w1 \<and> last ws = wn \<and>
           last_id_of us' u =
             (if confirmed vis oks = [] then last_id_of us u
              else extract_tweet_id (link (last (confirmed vis oks)))) \<and>
           sent_ids out = map item_id (confirmed vis oks)"
proof -
  from process_user_pushed[OF assms] obtain oks ws where
    "pushed E ch u (sort_key pubDate new) oks ws" "hd ws = w1" "last ws = wn"
    "last_id_of us' u =
       (if confirmed (sort_key pubDate new) oks = [] then last_id_of us u
        else extract_tweet_id (link (last (confirmed (sort_key pubDate new) oks))))"
    "sent_ids out = map item_id (confirmed (sort_key pubDate new) oks)"
    by blast
  moreover have "mset (sort_key pubDate new) = mset new" by simp
  ultimately show ?thesis by blast
qed

theorem delivery_attempts_every_entry_witness:
  "(\<exists>vis oks ws.
      mset vis = mset [entry ''/status/100'' ''a'', entry ''/status/200#m'' ''c'',
                       entry ''/status/300'' ''d''] \<and>
      pushed sample_ext sample_channel ''alice'' vis oks ws \<and>
      hd ws = ([Returned 200 ''ok'', Returned 500 [], Returned 200 ''ok''], [GET ''http://m1/alice/rss'']) \<and>
      last ws = ([], GET ''http://m1/alice/rss'' # sample_posts) \<and>
      Some ''300'' =
        (if confirmed vis oks = [] then None
         else extract_tweet_id (link (last (confirmed vis oks)))) \<and>
      [''100'', ''300''] = map item_id (confirmed vis oks)) \<and>
   pushed sample_ext sample_channel ''alice''
     [entry ''/status/100'' ''a'', entry ''/status/200#m'' ''c'', entry ''/status/300'' ''d'']
     [True, False, True]
     [([Returned 200 ''ok'', Returned 500 [], Returned 200 ''ok''], [GET ''http://m1/alice/rss'']),
      ([Returned 500 [], Returned 200 ''ok''], GET ''http://m1/alice/rss'' # take 1 sample_posts),
      ([Returned 200 ''ok''], GET ''http://m1/alice/rss'' # take 2 sample_posts),
      ([], GET ''http://m1/alice/rss'' # sample_posts)] \<and>
   confirmed [entry ''/status/100'' ''a'', entry ''/status/200#m'' ''c'', entry ''/status/300'' ''d'']
     [True, False, True] = [entry ''/status/100'' ''a'', entry ''/status/300'' ''d''] \<and>
   extract_tweet_id (link (entry ''/status/300'' ''d'')) = Some ''300''"
proof -
  have "select_new_items (last_id_of Map.empty ''alice'')
        [entry ''/status/100'' ''a'', entry ''/photo/7'' ''b'', entry ''/status/200#m'' ''c'',
          entry ''/status/300'' ''d''] =
        Inr [entry ''/status/100'' ''a'', entry ''/status/200#m'' ''c'', entry ''/status/300'' ''d'']"
    unfolding sample_last_id_empty by (rule sample_select_first)
  from delivery_attempts_every_entry[OF sample_fetch this sample_process_user, of "[]" "[]"]
  have "\<exists>vis oks ws.
      mset vis = mset [entry ''/status/100'' ''a'', entry ''/status/200#m'' ''c'',
                       entry ''/status/300'' ''d''] \<and>
      pushed sample_ext sample_channel ''alice'' vis oks ws \<and>
      hd ws = ([Returned 200 ''ok'', Returned 500 [], Returned 200 ''ok''], [GET ''http://m1/alice/rss'']) \<and>
      last ws = ([], GET ''http://m1/alice/rss'' # sample_posts) \<and>
      Some ''300'' =
        (if confirmed vis oks = [] then None
         else extract_tweet_id (link (last (confirmed vis oks)))) \<and>
      [''100'', ''300''] = map item_id (confirmed vis oks)"
    by (simp only: sample_last_id_empty last_id_of_written append_Nil append_Cons sent_ids.simps)
  moreover have "extract_tweet_id (link (entry ''/status/300'' ''d'')) = Some ''300''"
    by (simp add: entry_def sample_ids del: extract_tweet_id.simps)
  ultimately show ?thesis
    using sample_pushed sample_confirmed by (intro conjI)
qed

theorem delivery_continues_after_failure:
  "process_user sample_ext [''http://m1/''] sample_channel ''alice'' Map.empty
     ([Returned 200 ''<rss>'', Returned 200 ''ok'', Returned 500 [], Returned 200 ''ok''], []) =
   (Inr ([''alice'' \<mapsto> [(''last_id'', SStr ''300'')]],
         [Sent ''alice'' ''100'', Fail ''alice'' ''200'', Sent ''alice'' ''300'']),
    ([], GET ''http://m1/alice/rss'' # sample_posts))"
  by (simp add: sample_process_user)

text \<open>
  C2. Over the passes of the daemon loop, each starting from the state that the previous
  one returned and saved: the integer read from the stored \<open>last_id\<close> of an account
  never decreases from the state before a pass to the state after it. Whenever it is
  different after a pass, it is the integer of an identifier \<open>t\<close> for which that pass
  printed the line \<open>[sent]\<close> with the account, and \<open>t\<close> is the identifier of an
  entry whose push for the account returned true: the line is printed, and
  \<open>latest_seen_id\<close> set, only right after such a push. A pass that raises saves nothing
  and ends the list.
\<close>

theorem watermark_never_decreases:
  assumes "daemon E env cfg clock st w = (passes, w')" and "i < length passes"
  shows "(\<forall>x. state_watermark ((st # map fst passes) ! i) a = Some x \<longrightarrow>
            (\<exists>y. state_watermark (fst (passes ! i)) a = Some y \<and> x \<le> y)) \<and>
         (state_watermark (fst (passes ! i)) a \<noteq> state_watermark ((st # map fst passes) ! i) a \<longrightarrow>
            (\<exists>t it w1 w2 warn.
               push_item E (channel_of cfg env) a it w1 = (Inr (True, warn), w2) \<and>
               extract_tweet_id (link it) = Some t \<and>
               Sent a t \<in> set (snd (passes ! i)) \<and>
               state_watermark (fst (passes ! i)) a = py_int t))"
  using assms
proof (induction clock arbitrary: st w passes w' i)
  case Nil
  then show ?case by simp
next
  case (Cons utcnow clock)
  from Cons.prems obtain st1 out1 w1 rest where
    r: "run_once E env utcnow cfg st w = (Inr (st1, out1), w1)"
    and d: "daemon E env cfg clock st1 w1 = (rest, w')"
    and passes: "passes = (st1, out1) # rest"
    by (auto split: prod.splits sum.splits)
  show ?case
  proof (cases i)
    case 0
    note m = run_once_watermark[OF r, of a]
    have "\<exists>t it w1 w2 warn.
        push_item E (channel_of cfg env) a it w1 = (Inr (True, warn), w2) \<and>
        extract_tweet_id (link it) = Some t \<and> Sent a t \<in> set out1 \<and>
        state_watermark st1 a = py_int t"
      if "state_watermark st1 a \<noteq> state_watermark st a"
    proof -
      from m that obtain t where t: "Sent a t \<in> set out1" "state_watermark st1 a = py_int t"
        by blast
      from run_once_sent_ok[OF r t(1)] t show ?thesis by blast
    qed
    with m 0 passes show ?thesis by simp
  next
    case (Suc j)
    with Cons.prems(2) passes have "j < length rest" by simp
    from Cons.IH[OF d this] Suc passes show ?thesis by simp
  qed
qed

theorem watermark_never_decreases_witness:
  "(\<exists>t it w1 w2 warn.
      push_item sample_ext sample_channel ''alice'' it w1 = (Inr (True, warn), w2) \<and>
      extract_tweet_id (link it) = Some t \<and>
      Sent ''alice'' t \<in> set [Sent ''alice'' ''100'', Fail ''alice'' ''200'', Sent ''alice'' ''300''] \<and>
      Some 300 = py_int t) \<and>
   (\<exists>y. state_watermark (sample_state\<lparr>updated_at := Some ''t2Z''\<rparr>) ''alice'' = Some y \<and> (300::int) \<le> y)"
proof -
  have l: "(0::nat) < length [(sample_state, [Sent ''alice'' ''100'', Fail ''alice'' ''200'', Sent ''alice'' ''300'']),
     (sample_state\<lparr>updated_at := Some ''t2Z''\<rparr>, [Info_no_new ''alice''])]"
    "(1::nat) < length [(sample_state, [Sent ''alice'' ''100'', Fail ''alice'' ''200'', Sent ''alice'' ''300'']),
     (sample_state\<lparr>updated_at := Some ''t2Z''\<rparr>, [Info_no_new ''alice''])]"
    by simp_all
  from watermark_never_decreases[OF sample_daemon l(1), of "''alice''"]
    watermark_never_decreases[OF sample_daemon l(2), of "''alice''"]
  show ?thesis
    by (simp add: sample_watermarks sample_channel_of)
qed

text \<open>
  C3. The watermark filter. On a first run (no \<open>last_id\<close>) it keeps exactly the entries
  whose link holds an identifier; with a \<open>last_id\<close> that reads as the integer \<open>b\<close> it
  keeps exactly the entries whose identifier, read as an integer, is greater than \<open>b\<close>; the
  order of the entries is kept. Every identifier that is extracted reads as an integer, so
  an entry has no integer identifier exactly when nothing can be extracted from its link,
  and such an entry is in no result of the filter. It is never delivered either: every
  delivery that the processing of an account attempts is for an entry of the fetched feed
  from whose link the identifier of the attempt was extracted.
\<close>

theorem watermark_filter:
  "select_new_items None items = Inr (filter (\<lambda>it. extract_tweet_id (link it) \<noteq> None) items) \<and>
   (py_int l = Some b \<longrightarrow>
      select_new_items (Some l) items =
        Inr (filter (\<lambda>it. case tweet_number it of None \<Rightarrow> False | Some a \<Rightarrow> b < a) items)) \<and>
   (\<forall>it. tweet_number it = None \<longleftrightarrow> extract_tweet_id (link it) = None) \<and>
   (\<forall>lo new. select_new_items lo items = Inr new \<longrightarrow>
      (\<forall>it \<in> set new. extract_tweet_id (link it) \<noteq> None)) \<and>
   (\<forall>E insts ch u us w us' out w'.
      process_user E insts ch u us w = (Inr (us', out), w') \<longrightarrow>
      fst (fetch_latest_from_nitter (Request E) (urlopen E) (fromstring E) insts u w) = Inr items \<longrightarrow>
      (\<forall>a \<in> set (attempts out). \<exists>it \<in> set items. extract_tweet_id (link it) = Some (fst a)))"
proof -
  have 1: "extract_tweet_id (link it) \<noteq> None"
    if "select_new_items lo items = Inr new" "it \<in> set new" for lo new it
    using select_new_items_sound[OF that] by auto
  have 2: "\<exists>it \<in> set items. extract_tweet_id (link it) = Some (fst a)"
    if p: "process_user E insts ch u us w = (Inr (us', out), w')"
      and f: "fst (fetch_latest_from_nitter (Request E) (urlopen E) (fromstring E) insts u w) = Inr items"
      and a: "a \<in> set (attempts out)"
    for E :: "'w ext" and insts ch u us w us' out w' a
    using p
  proof (cases rule: process_user_cases)
    case no_items
    with a show ?thesis by simp
  next
    case (no_new items')
    with a show ?thesis by simp
  next
    case (delivered items' wn new final)
    with f have i: "items' = items" by simp
    from process_user_attempts[OF delivered(1) delivered(3) p] a
    have "map fst (attempts out) = map item_id (sort_key pubDate new)" "a \<in> set (attempts out)"
      by simp_all
    then have "fst a \<in> set (map item_id (sort_key pubDate new))"
      by (metis imageI list.set_map)
    then have "fst a \<in> item_id ` set new" by simp
    then obtain it where it: "it \<in> set new" "fst a = item_id it" by blast
    from select_new_items_sound[OF delivered(3) it(1)] i it(2) show ?thesis
      by (auto simp: item_id_def or_empty_def)
  qed
  have 3: "py_int l = Some b \<longrightarrow>
      select_new_items (Some l) items =
        Inr (filter (\<lambda>it. case tweet_number it of None \<Rightarrow> False | Some a \<Rightarrow> b < a) items)"
    using select_new_items_watermark by blast
  have 4: "\<forall>it. tweet_number it = None \<longleftrightarrow> extract_tweet_id (link it) = None"
    using tweet_number_None by blast
  have 5: "\<forall>lo new. select_new_items lo items = Inr new \<longrightarrow>
      (\<forall>it \<in> set new. extract_tweet_id (link it) \<noteq> None)"
    using 1 by blast
  have 6: "\<forall>(E :: 'w ext) insts ch u us w us' out w'.
      process_user E insts ch u us w = (Inr (us', out), w') \<longrightarrow>
      fst (fetch_latest_from_nitter (Request E) (urlopen E) (fromstring E) insts u w) = Inr items \<longrightarrow>
      (\<forall>a \<in> set (attempts out). \<exists>it \<in> set items. extract_tweet_id (link it) = Some (fst a))"
  proof (intro allI impI ballI)
    fix E :: "'w ext" and insts ch u us w us' out w' a
    assume "process_user E insts ch u us w = (Inr (us', out), w')"
      "fst (fetch_latest_from_nitter (Request E) (urlopen E) (fromstring E) insts u w) = Inr items"
      "a \<in> set (attempts out)"
    then show "\<exists>it \<in> set items. extract_tweet_id (link it) = Some (fst a)" by (rule 2)
  qed
  from select_new_items_first_run[of items] 3 4 5 6 show ?thesis
    by (intro conjI)
qed


theorem watermark_filter_witness:
  "select_new_items None
     [entry ''/status/100'' ''a'', entry ''/photo/7'' ''b'', entry ''/status/200#m'' ''c'',
      entry ''/status/300'' ''d''] =
     Inr [entry ''/status/100'' ''a'', entry ''/status/200#m'' ''c'', entry ''/status/300'' ''d''] \<and>
   py_int ''100'' = Some 100 \<and>
   select_new_items (Some ''100'')
     [entry ''/status/100'' ''a'', entry ''/photo/7'' ''b'', entry ''/status/200#m'' ''c'',
      entry ''/status/300'' ''d''] =
     Inr [entry ''/status/200#m'' ''c'', entry ''/status/300'' ''d''] \<and>
   tweet_number (entry ''/photo/7'' ''b'') = None \<and>
   extract_tweet_id (link (entry ''/status/200#m'' ''c'')) \<noteq> None \<and>
   extract_tweet_id (link (entry ''/status/300'' ''d'')) \<noteq> None \<and>
   attempts [Sent ''alice'' ''100'', Fail ''alice'' ''200'', Sent ''alice'' ''300''] =
     [(''100'', True), (''200'', False), (''300'', True)] \<and>
   (\<exists>it \<in> set [entry ''/status/100'' ''a'', entry ''/photo/7'' ''b'', entry ''/status/200#m'' ''c'',
      entry ''/status/300'' ''d'']. extract_tweet_id (link it) = Some ''200'')"
proof -
  let ?items = "[entry ''/status/100'' ''a'', entry ''/photo/7'' ''b'', entry ''/status/200#m'' ''c'',
      entry ''/status/300'' ''d'']"
  note w = watermark_filter[of ?items "''100''" 100]
  have f: "fst (fetch_latest_from_nitter (Request sample_ext) (urlopen sample_ext) (fromstring sample_ext) [''http://m1/''] ''alice''
      (Returned 200 ''<rss>'' # Returned 200 ''ok'' # Returned 500 [] # Returned 200 ''ok'' # [], [])) =
      Inr ?items"
    by (simp only: sample_fetch fst_conv)
  note w[THEN conjunct2, THEN conjunct2, THEN conjunct2, THEN conjunct2, rule_format,
      OF sample_process_user[of "[]" "[]"] f, of "(''200'', False)"]
  then have d: "\<exists>it \<in> set ?items. extract_tweet_id (link it) = Some ''200''"
    by simp
  from w have "select_new_items None ?items =
      Inr [entry ''/status/100'' ''a'', entry ''/status/200#m'' ''c'', entry ''/status/300'' ''d''] \<and>
    select_new_items (Some ''100'') ?items =
      Inr [entry ''/status/200#m'' ''c'', entry ''/status/300'' ''d''] \<and>
    tweet_number (entry ''/photo/7'' ''b'') = None \<and>
    extract_tweet_id (link (entry ''/status/200#m'' ''c'')) \<noteq> None \<and>
    extract_tweet_id (link (entry ''/status/300'' ''d'')) \<noteq> None"
    by (simp add: entry_def sample_ids sample_ints tweet_number_def del: extract_tweet_id.simps)
  with d show ?thesis by (simp add: sample_ints)
qed

text \<open>
  C4. The fetch asks the mirrors in the order of the list, skips a mirror whose answer
  reaches the program as another status than 200, an empty body, an \<open>HTTPError\<close> whose
  body is read or a \<open>URLError\<close>, and takes the document of the first other mirror
  without asking a later one. But a probe that ends in an exception of any other class (a timeout while the
  response is read is one) is not caught by \<open>http_get\<close>: with two mirrors of which the
  first ends so and the second would answer, the exception leaves
  \<open>fetch_latest_from_nitter\<close> and the second mirror is never asked.
\<close>

theorem fetch_raises_instead_of_failover:
  "fetch_latest_from_nitter (Request sample_ext) (urlopen sample_ext) (fromstring sample_ext) [''http://m1/'', ''http://m2'']
     ''alice'' ([Raised, Returned 200 ''<rss>''], []) =
   (Inl OtherError, ([Returned 200 ''<rss>''], [GET ''http://m1/alice/rss'']))"
proof -
  have u: "urlopen sample_ext = scripted" "Request sample_ext = known_url_type"
    by (simp_all add: sample_ext_def)
  have "http_get known_url_type scripted (rss_url ''http://m1/'' ''alice'') ([Raised, Returned 200 ''<rss>''], []) =
      (Inl OtherError, ([Returned 200 ''<rss>''], [GET ''http://m1/alice/rss'']))"
    by (simp add: http_get_def scripted_def sample_urls known_url_type_def)
  then show ?thesis unfolding u by (rule fetch_raises)
qed

text \<open>
  C5. The comments of the source say that the items are sorted from the oldest to the
  newest, but the sort key is the \<open>pubDate\<close> string, and the dates of a feed begin with
  the name of the weekday. Two entries published on Monday 6 and on Friday 10 November
  2023 come out with the entry of Friday first: the newest first, not the oldest.
\<close>

theorem fetch_sorts_by_date_string:
  "fst (fetch_latest_from_nitter (Request sample_ext) (urlopen sample_ext) (fromstring sample_ext)
          [''http://m1/''] ''alice'' ([Returned 200 ''<dated>''], [])) =
   Inr [entry ''/status/200'' ''Fri, 10 Nov 2023 10:00:00 GMT'',
        entry ''/status/100'' ''Mon, 06 Nov 2023 10:00:00 GMT'']"
  by (simp only: dated_fetch fst_conv)

text \<open>
  C6 (as the code has it). When the constructor accepts the URL of the channel and the
  request reaches the push function as a status and a body (a response that was read, an
  \<open>HTTPError\<close> whose body was read, or a \<open>URLError\<close>, which stands for the status 0),
  each push function returns a boolean, and it is true exactly when the status is 200 and
  the body parses to a JSON object whose member \<open>errcode\<close> (JSON channel) or \<open>code\<close>
  (form channel) is present and equal to 0 in Python's sense. Every other status, an
  unparseable body, a body that is no object and a missing or non-zero member give false.
  Nothing is said here about a URL that the constructor rejects, nor about a request that
  ends in an exception of another class or in an \<open>HTTPError\<close> whose body cannot be read.
\<close>

theorem push_true_iff:
  "(R webhook \<and>
    U (POST_JSON webhook \<lparr>msgtype = ''text'', content = take 4096 msg\<rparr>) w = (oc, wn) \<and>
    handled oc = Inr (code, body) \<longrightarrow>
      (\<exists>ok. push_wecom R U L webhook msg w = (Inr ok, wn) \<and>
         (ok \<longleftrightarrow> code = 200 \<and>
                 (\<exists>kvs v. L body = Some (JObj kvs) \<and> map_of kvs ''errcode'' = Some v \<and> eq_zero v)))) \<and>
   (R (''https://sctapi.ftqq.com/'' @ sendkey @ ''.send'') \<and>
    U (POST_FORM (''https://sctapi.ftqq.com/'' @ sendkey @ ''.send'')
         [(''title'', ttl), (''desp'', desp)]) w = (oc, wn) \<and>
    handled oc = Inr (code, body) \<longrightarrow>
      (\<exists>ok. push_serverchan R U L sendkey ttl desp w = (Inr ok, wn) \<and>
         (ok \<longleftrightarrow> code = 200 \<and>
                 (\<exists>kvs v. L body = Some (JObj kvs) \<and> map_of kvs ''code'' = Some v \<and> eq_zero v))))"
proof -
  have m: "member_is_zero j key d \<longleftrightarrow> (\<exists>kvs v. j = JObj kvs \<and> map_of kvs key = Some v \<and> eq_zero v)"
    if "\<not> eq_zero d" for j key d
    using that by (cases j) (auto split: option.splits)
  have 1: "\<exists>ok. push_wecom R U L webhook msg w = (Inr ok, wn) \<and>
         (ok \<longleftrightarrow> code = 200 \<and>
                 (\<exists>kvs v. L body = Some (JObj kvs) \<and> map_of kvs ''errcode'' = Some v \<and> eq_zero v))"
    if "R webhook"
      "U (POST_JSON webhook \<lparr>msgtype = ''text'', content = take 4096 msg\<rparr>) w = (oc, wn)"
      "handled oc = Inr (code, body)"
  proof (cases "code = 200")
    case False
    with that show ?thesis by (auto simp: push_wecom_def http_post_json_def)
  next
    case True
    show ?thesis
    proof (cases "L body")
      case None
      with that True show ?thesis by (auto simp: push_wecom_def http_post_json_def)
    next
      case (Some j)
      with that True m[of "JInt (- 1)" j "''errcode''"] show ?thesis
        by (auto simp: push_wecom_def http_post_json_def)
    qed
  qed
  have 2: "\<exists>ok. push_serverchan R U L sendkey ttl desp w = (Inr ok, wn) \<and>
         (ok \<longleftrightarrow> code = 200 \<and>
                 (\<exists>kvs v. L body = Some (JObj kvs) \<and> map_of kvs ''code'' = Some v \<and> eq_zero v))"
    if "R (''https://sctapi.ftqq.com/'' @ sendkey @ ''.send'')"
      "U (POST_FORM (''https://sctapi.ftqq.com/'' @ sendkey @ ''.send'')
         [(''title'', ttl), (''desp'', desp)]) w = (oc, wn)"
      "handled oc = Inr (code, body)"
  proof (cases "code = 200")
    case False
    with that show ?thesis by (auto simp: push_serverchan_def http_post_form_def)
  next
    case True
    show ?thesis
    proof (cases "L body")
      case None
      with that True show ?thesis by (auto simp: push_serverchan_def http_post_form_def)
    next
      case (Some j)
      with that True m[of JNull j "''code''"] show ?thesis
        by (auto simp: push_serverchan_def http_post_form_def)
    qed
  qed
  from 1 2 show ?thesis by blast
qed

theorem push_true_iff_witness:
  "(\<exists>ok. push_wecom known_url_type scripted (loads sample_ext) ''https://h/k'' ''hi''
            ([Returned 200 ''ok''], []) =
           (Inr ok, ([], [POST_JSON ''https://h/k'' \<lparr>msgtype = ''text'', content = ''hi''\<rparr>])) \<and> ok) \<and>
   (\<exists>ok. push_serverchan known_url_type scripted (loads sample_ext) ''key'' ''t'' ''d''
            ([HTTPError 500 (Some ''sc'')], []) =
           (Inr ok, ([], [POST_FORM ''https://sctapi.ftqq.com/key.send''
                            [(''title'', ''t''), (''desp'', ''d'')]])) \<and> \<not> ok)"
proof -
  have 1: "known_url_type ''https://h/k'' \<and>
      scripted (POST_JSON ''https://h/k'' \<lparr>msgtype = ''text'', content = take 4096 ''hi''\<rparr>)
        ([Returned 200 ''ok''], []) =
      (Returned 200 ''ok'', ([], [POST_JSON ''https://h/k'' \<lparr>msgtype = ''text'', content = ''hi''\<rparr>])) \<and>
      handled (Returned 200 ''ok'') = Inr (200, ''ok'')"
    by (simp add: scripted_def known_url_type_def)
  have 2: "known_url_type (''https://sctapi.ftqq.com/'' @ ''key'' @ ''.send'') \<and>
      scripted (POST_FORM (''https://sctapi.ftqq.com/'' @ ''key'' @ ''.send'')
        [(''title'', ''t''), (''desp'', ''d'')]) ([HTTPError 500 (Some ''sc'')], []) =
      (HTTPError 500 (Some ''sc''), ([], [POST_FORM ''https://sctapi.ftqq.com/key.send''
           [(''title'', ''t''), (''desp'', ''d'')]])) \<and>
      handled (HTTPError 500 (Some ''sc'')) = Inr (500, ''sc'')"
    by (simp add: scripted_def known_url_type_def)
  from push_true_iff[where R = known_url_type and U = scripted and webhook = "''https://h/k''"
      and msg = "''hi''" and w = "([Returned 200 ''ok''], [])" and oc = "Returned 200 ''ok''"
      and wn = "([], [POST_JSON ''https://h/k'' \<lparr>msgtype = ''text'', content = ''hi''\<rparr>])"
      and code = 200 and body = "''ok''" and L = "loads sample_ext"] 1
  have a: "\<exists>ok. push_wecom known_url_type scripted (loads sample_ext) ''https://h/k'' ''hi''
            ([Returned 200 ''ok''], []) =
           (Inr ok, ([], [POST_JSON ''https://h/k'' \<lparr>msgtype = ''text'', content = ''hi''\<rparr>])) \<and> ok"
    by (simp add: sample_loads)
  from push_true_iff[where R = known_url_type and U = scripted and sendkey = "''key''"
      and ttl = "''t''" and desp = "''d''"
      and w = "([HTTPError 500 (Some ''sc'')], [])" and oc = "HTTPError 500 (Some ''sc'')"
      and wn = "([], [POST_FORM ''https://sctapi.ftqq.com/key.send'' [(''title'', ''t''), (''desp'', ''d'')]])"
      and code = 500 and body = "''sc''" and L = "loads sample_ext"] 2
  have b: "\<exists>ok. push_serverchan known_url_type scripted (loads sample_ext) ''key'' ''t'' ''d''
            ([HTTPError 500 (Some ''sc'')], []) =
           (Inr ok, ([], [POST_FORM ''https://sctapi.ftqq.com/key.send''
                            [(''title'', ''t''), (''desp'', ''d'')]])) \<and> \<not> ok"
    by simp
  from a b show ?thesis by blast
qed

theorem push_false_on_201:
  "push_wecom known_url_type scripted (loads sample_ext) ''https://h/k'' ''hi''
     ([Returned 201 ''ok''], []) =
   (Inr False, ([], [POST_JSON ''https://h/k'' \<lparr>msgtype = ''text'', content = ''hi''\<rparr>])) \<and>
   loads sample_ext ''ok'' = Some (JObj [(''errcode'', JInt 0), (''errmsg'', JStr ''ok'')])"
  by (simp add: push_wecom_def http_post_json_def scripted_def sample_loads known_url_type_def)

text \<open>
  C7. The code means the failures of an account's processing to be values: the HTTP helpers
  catch \<open>HTTPError\<close> and \<open>URLError\<close>, \<open>parse_rss_items\<close> catches \<open>ParseError\<close>, the
  push functions catch whatever the decoding of the answer raises, and line 316 gives an
  account that has no record in the state the \<open>last_id\<close> \<open>None\<close>. But the same line
  turns the record of an account that has no \<open>last_id\<close> member into the string
  \<open>None\<close>, and \<open>int()\<close> of that string raises \<open>ValueError\<close> at the first entry of the
  feed that has an identifier: the exception leaves the processing of the account, with
  nothing pushed. On the same feed an account with no record at all is processed to the
  end.
\<close>

theorem process_user_raises_without_last_id:
  "process_user sample_ext [''http://m1/''] sample_channel ''alice''
     [''alice'' \<mapsto> [(''note'', SStr ''x'')]] ([Returned 200 ''<rss>''], []) =
   (Inl ValueError, ([], [GET ''http://m1/alice/rss''])) \<and>
   process_user sample_ext [''http://m1/''] sample_channel ''alice'' Map.empty
     ([Returned 200 ''<rss>'', Returned 200 ''ok'', Returned 200 ''ok'', Returned 200 ''ok''], []) =
   (Inr ([''alice'' \<mapsto> [(''last_id'', SStr ''300'')]],
         [Sent ''alice'' ''100'', Sent ''alice'' ''200'', Sent ''alice'' ''300'']),
    ([], GET ''http://m1/alice/rss'' # sample_posts))"
proof -
  have "select_new_items (last_id_of [''alice'' \<mapsto> [(''note'', SStr ''x'')]] ''alice'')
      [entry ''/status/100'' ''a'', entry ''/photo/7'' ''b'',
       entry ''/status/200#m'' ''c'', entry ''/status/300'' ''d''] = Inl ValueError"
    unfolding sample_missing_last_id by (rule sample_select_raises)
  note r = process_user_select_raises[OF sample_fetch this]
  show ?thesis by (simp add: r sample_process_user_ok)
qed

text \<open>
  C8. \<open>save_json_atomic\<close> writes the whole serialization to the temporary file
  \<open>path.tmp\<close> and only its last step, \<open>os.replace\<close>, touches the checkpoint. After
  any number of steps short of that last one (a crash or an exception there) the checkpoint
  file holds exactly what it held before, and the temporary file holds the chunks written
  so far; after the last step the checkpoint holds the complete serialization and the
  temporary file is gone.
\<close>

theorem checkpoint_intact_before_install:
  assumes "k < length (save_json_atomic_steps chunks path data)"
  shows "run_steps k (save_json_atomic_steps chunks path data) f path = f path \<and>
         (0 < k \<longrightarrow> run_steps k (save_json_atomic_steps chunks path data) f (path @ ''.tmp'') =
                    Some (concat (take (k - 1) (chunks data)))) \<and>
         save_json_atomic chunks path data f path = Some (concat (chunks data)) \<and>
         save_json_atomic chunks path data f (path @ ''.tmp'') = None"
proof -
  from assms have "k \<le> Suc (length (chunks data))"
    by (simp add: save_json_atomic_steps_def Let_def)
  then have "run_steps k (save_json_atomic_steps chunks path data) f =
      (if k = 0 then f else f(path @ ''.tmp'' \<mapsto> concat (take (k - 1) (chunks data))))"
    by (rule run_steps_before_install)
  with save_json_atomic_result[of chunks path data f] show ?thesis by simp
qed

theorem checkpoint_intact_before_install_witness:
  "run_steps 2 (save_json_atomic_steps (\<lambda>d. [''{'', d, ''}'']) ''state.json'' ''new'')
     [''state.json'' \<mapsto> ''{old}''] ''state.json'' = Some ''{old}'' \<and>
   run_steps 2 (save_json_atomic_steps (\<lambda>d. [''{'', d, ''}'']) ''state.json'' ''new'')
     [''state.json'' \<mapsto> ''{old}''] ''state.json.tmp'' = Some ''{'' \<and>
   save_json_atomic (\<lambda>d. [''{'', d, ''}'']) ''state.json'' ''new''
     [''state.json'' \<mapsto> ''{old}''] ''state.json'' = Some ''{new}'' \<and>
   save_json_atomic (\<lambda>d. [''{'', d, ''}'']) ''state.json'' ''new''
     [''state.json'' \<mapsto> ''{old}''] ''state.json.tmp'' = None"
proof -
  have "(2::nat) < length (save_json_atomic_steps (\<lambda>d. [''{'', d, ''}'']) ''state.json'' ''new'')"
    by (simp add: save_json_atomic_steps_def Let_def)
  from checkpoint_intact_before_install[OF this, of "[''state.json'' \<mapsto> ''{old}'']"]
  show ?thesis by simp
qed

text \<open>
  C9 (as the code has it). Two passes in a row over a source that answers every fetch of a
  configured account with the same feed. If the first pass returns, every delivery it
  attempted was confirmed, and in each feed the integer identifiers do not decrease in the
  order of the \<open>pubDate\<close> strings, then the second pass, started from the state of the
  first, returns the same per-account state and attempts no delivery at all.
\<close>

theorem second_pass_delivers_nothing:
  assumes "\<forall>u \<in> set (users_of cfg). \<forall>w.
             fst (fetch_latest_from_nitter (Request E) (urlopen E) (fromstring E) (instances_of cfg) u w) = Inr (feed u)"
    and "\<forall>u \<in> set (users_of cfg). ids_ascending (feed u)"
    and "run_once E env t1 cfg st w = (Inr (st1, out1), w1)"
    and "all_confirmed out1"
  shows "\<exists>out2 w2. run_once E env t2 cfg st1 w1 =
                      (Inr (st1\<lparr>updated_at := Some (t2 @ ''Z'')\<rparr>, out2), w2) \<and>
                    attempts out2 = []"
  using assms(3)
proof (cases rule: run_once_Inr)
  case (1 us1 out0)
  from assms(4) 1(4) have "all_confirmed out0" by (simp add: all_confirmed_def)
  with assms(1,2) 1(1) have
    "\<forall>u \<in> set (users_of cfg). select_new_items (last_id_of us1 u) (feed u) = Inr []"
    by (intro process_users_settles) 
  with assms(1) have "\<exists>out w'. process_users E (instances_of cfg) (channel_of cfg env) (users_of cfg) us1 w1 =
      (Inr (us1, out), w') \<and> attempts out = []"
    by (intro process_users_settled)
  then obtain out w2 where
    "process_users E (instances_of cfg) (channel_of cfg env) (users_of cfg) us1 w1 = (Inr (us1, out), w2)"
    "attempts out = []" by blast
  with 1(2) show ?thesis
    by (simp add: run_once_def Let_def attempts_append)
qed

theorem second_pass_delivers_nothing_witness:
  "\<exists>out2 w2. run_once steady_ext sample_environ ''t2'' sample_config sample_state
                 (GET ''http://m1/alice/rss'' # sample_posts) =
               (Inr (sample_state\<lparr>updated_at := Some (''t2'' @ ''Z'')\<rparr>, out2), w2) \<and>
             attempts out2 = []"
proof (rule second_pass_delivers_nothing)
  show "\<forall>u \<in> set (users_of sample_config). \<forall>w.
      fst (fetch_latest_from_nitter (Request steady_ext) (urlopen steady_ext) (fromstring steady_ext)
             (instances_of sample_config) u w) =
      Inr ((\<lambda>u. [entry ''/status/100'' ''a'', entry ''/photo/7'' ''b'', entry ''/status/200#m'' ''c'',
      entry ''/status/300'' ''d'']) u)"
    by (simp add: sample_config_sel steady_fetch del: fetch_latest_from_nitter.simps)
  show "\<forall>u \<in> set (users_of sample_config). ids_ascending ((\<lambda>u. [entry ''/status/100'' ''a'',
      entry ''/photo/7'' ''b'', entry ''/status/200#m'' ''c'', entry ''/status/300'' ''d'']) u)"
    by (simp add: sample_ids_ascending)
  show "run_once steady_ext sample_environ ''t1'' sample_config empty_state [] =
     (Inr (sample_state, [Sent ''alice'' ''100'', Sent ''alice'' ''200'', Sent ''alice'' ''300'']),
      GET ''http://m1/alice/rss'' # sample_posts)"
    by (rule steady_pass1)
  show "all_confirmed [Sent ''alice'' ''100'', Sent ''alice'' ''200'', Sent ''alice'' ''300'']"
    by (simp add: all_confirmed_def)
qed

theorem second_pass_delivers_after_failure:
  "map snd (fst (daemon sample_ext sample_environ sample_config [''t1'', ''t2''] empty_state
     ([Returned 200 ''<rss>'', Returned 500 [], Returned 500 [], Returned 500 [],
       Returned 200 ''<rss>'', Returned 200 ''ok'', Returned 200 ''ok'', Returned 200 ''ok''], []))) =
   [[Fail ''alice'' ''100'', Fail ''alice'' ''200'', Fail ''alice'' ''300''],
    [Sent ''alice'' ''100'', Sent ''alice'' ''200'', Sent ''alice'' ''300'']]"
proof -
  have c: "truthy (wecom_webhook (channel_of sample_config sample_environ))"
    "method_name (channel_of sample_config sample_environ) = ''wecom''"
    by (simp_all add: sample_channel_of sample_channel_def truthy_def)
  have p1: "run_once sample_ext sample_environ ''t1'' sample_config empty_state
     (Returned 200 ''<rss>'' # Returned 500 [] # Returned 500 [] # Returned 500 [] # script, log) =
     (Inr (\<lparr>st_users = Some Map.empty, updated_at = Some (''t1'' @ ''Z'')\<rparr>,
        [Fail ''alice'' ''100'', Fail ''alice'' ''200'', Fail ''alice'' ''300'']),
      (script, (log @ [GET ''http://m1/alice/rss'']) @ sample_posts))" for script log
    by (rule run_once_eq[OF _ c], unfold sample_channel_of sample_config_sel sample_users_empty,
        rule process_users_single, rule sample_process_user_fail)
  have p2: "run_once sample_ext sample_environ ''t2'' sample_config
       \<lparr>st_users = Some Map.empty, updated_at = Some ''t1Z''\<rparr>
     (Returned 200 ''<rss>'' # Returned 200 ''ok'' # Returned 200 ''ok'' # Returned 200 ''ok'' # script, log) =
     (Inr (\<lparr>st_users = Some [''alice'' \<mapsto> [(''last_id'', SStr ''300'')]], updated_at = Some ''t2Z''\<rparr>,
        [Sent ''alice'' ''100'', Sent ''alice'' ''200'', Sent ''alice'' ''300'']),
      (script, (log @ [GET ''http://m1/alice/rss'']) @ sample_posts))" for script log
  proof -
    have "process_users sample_ext (instances_of sample_config)
        (channel_of sample_config sample_environ) (users_of sample_config)
        (case st_users \<lparr>st_users = Some Map.empty, updated_at = Some ''t1Z''\<rparr> of
           None \<Rightarrow> Map.empty | Some m \<Rightarrow> m)
        (Returned 200 ''<rss>'' # Returned 200 ''ok'' # Returned 200 ''ok'' # Returned 200 ''ok'' # script, log)
      = (Inr ([''alice'' \<mapsto> [(''last_id'', SStr ''300'')]],
           [Sent ''alice'' ''100'', Sent ''alice'' ''200'', Sent ''alice'' ''300'']),
         (script, (log @ [GET ''http://m1/alice/rss'']) @ sample_posts))"
      using process_users_single[OF sample_process_user_ok]
      by (simp add: sample_channel_of sample_config_sel)
    from run_once_eq[OF this c] show ?thesis by simp
  qed
  show ?thesis
    by (simp add: p1 p2)
qed

text \<open>
  C10. \<open>push_wecom\<close> hands the transport exactly one request, a JSON post to the
  webhook whose text content is the message itself when it has at most 4096 characters and
  its first 4096 characters otherwise; no message is rejected or split. The transport is
  any transport, with a record of the requests added. Whether the request can be built
  depends on the URL of the webhook alone: for a URL that the constructor rejects nothing
  is sent, whatever the message.
\<close>

theorem wecom_content_truncated:
  "snd (snd (push_wecom R (logged U) L webhook msg (w, log))) =
     (if R webhook
      then log @ [POST_JSON webhook
                    \<lparr>msgtype = ''text'',
                     content = (if length msg \<le> 4096 then msg else take 4096 msg)\<rparr>]
      else log)"
proof (cases "R webhook")
  case False
  then show ?thesis by (simp add: push_wecom_def http_post_json_def)
next
  case True
  let ?p = "\<lparr>msgtype = ''text'', content = take 4096 msg\<rparr>"
  obtain oc w' where u: "U (POST_JSON webhook ?p) w = (oc, w')"
    by (cases "U (POST_JSON webhook ?p) w")
  with True have h: "http_post_json R (logged U) webhook ?p (w, log) =
      (handled oc, (w', log @ [POST_JSON webhook ?p]))"
    by (simp add: http_post_json_def logged_def)
  have "snd (snd (push_wecom R (logged U) L webhook msg (w, log))) = log @ [POST_JSON webhook ?p]"
  proof (cases "handled oc")
    case (Inl e)
    with h show ?thesis by (simp add: push_wecom_def)
  next
    case (Inr cb)
    obtain code body where "cb = (code, body)" by (cases cb)
    with h Inr show ?thesis by (simp add: push_wecom_def split: option.splits)
  qed
  with True show ?thesis by simp
qed

end
